theory Spec2Isabelle
  imports Main
begin

section \<open>Python values and the operations the handler applies to them\<close>

text \<open>
  The handler (\<^verbatim>\<open>src/jira_handler.py\<close>) works on JSON-like Python values: issue
  specifications read from the work description, and the parsed bodies of the tracker's
  responses. Dictionaries keep their insertion order, so they are association lists
  (with distinct keys); \<^verbatim>\<open>None\<close> is \<open>JNull\<close>. Numbers are integers: the handler
  does no arithmetic on them and only compares and copies them.
\<close>

datatype jval =
    JNull
  | JBool bool
  | JNum int
  | JStr string
  | JList "jval list"
  | JDict "(string \<times> jval) list"

type_synonym dict = "(string \<times> jval) list"

text \<open>The exceptions the handler can raise, by Python class.\<close>

datatype error =
    ValueError string
  | KeyError string
  | TypeError
  | AttributeError
  | UnboundLocalError
  | RuntimeError string
  | HTTPError int

text \<open>Python's \<^verbatim>\<open>==\<close> on such values: \<^verbatim>\<open>True == 1\<close>, and dictionaries are equal
  when they have the same keys with equal values, in any order.\<close>

fun py_eq :: "jval \<Rightarrow> jval \<Rightarrow> bool" where
  "py_eq JNull JNull = True"
| "py_eq (JBool a) (JBool b) = (a = b)"
| "py_eq (JBool a) (JNum n) = ((if a then 1 else 0) = n)"
| "py_eq (JNum n) (JBool a) = (n = (if a then 1 else 0))"
| "py_eq (JNum a) (JNum b) = (a = b)"
| "py_eq (JStr a) (JStr b) = (a = b)"
| "py_eq (JList xs) (JList ys) = list_all2 py_eq xs ys"
| "py_eq (JDict a) (JDict b) =
     (length a = length b \<and>
      list_all (\<lambda>(k, v). case map_of b k of None \<Rightarrow> False | Some w \<Rightarrow> py_eq v w) a)"
| "py_eq _ _ = False"

text \<open>Truth value of a value in a condition (\<^verbatim>\<open>if issue_key:\<close>).\<close>

fun truthy :: "jval \<Rightarrow> bool" where
  "truthy JNull = False"
| "truthy (JBool b) = b"
| "truthy (JNum n) = (n \<noteq> 0)"
| "truthy (JStr s) = (s \<noteq> [])"
| "truthy (JList xs) = (xs \<noteq> [])"
| "truthy (JDict d) = (d \<noteq> [])"

text \<open>\<^verbatim>\<open>v[k]\<close> with a string \<open>k\<close>: a dictionary raises KeyError on a missing key, every
  other value raises TypeError.\<close>

fun py_getitem :: "jval \<Rightarrow> string \<Rightarrow> error + jval" where
  "py_getitem (JDict d) k = (case map_of d k of None \<Rightarrow> Inl (KeyError k) | Some v \<Rightarrow> Inr v)"
| "py_getitem _ k = Inl TypeError"

text \<open>\<^verbatim>\<open>v.get(k, default)\<close>: only dictionaries have the method.\<close>

fun py_get :: "jval \<Rightarrow> string \<Rightarrow> jval \<Rightarrow> error + jval" where
  "py_get (JDict d) k dflt = (case map_of d k of None \<Rightarrow> Inr dflt | Some v \<Rightarrow> Inr v)"
| "py_get _ k dflt = Inl AttributeError"

text \<open>\<^verbatim>\<open>for x in v\<close>: a list yields its elements, a dictionary its keys, a string its
  characters (each a string of length one); nothing else is iterable.\<close>

fun py_iter :: "jval \<Rightarrow> error + jval list" where
  "py_iter (JList xs) = Inr xs"
| "py_iter (JDict d) = Inr (map (\<lambda>kv. JStr (fst kv)) d)"
| "py_iter (JStr s) = Inr (map (\<lambda>c. JStr [c]) s)"
| "py_iter _ = Inl TypeError"

text \<open>\<^verbatim>\<open>d[k] = v\<close> on an insertion-ordered dictionary: an existing key keeps its place,
  a new key goes to the end.\<close>

fun dict_set :: "dict \<Rightarrow> string \<Rightarrow> jval \<Rightarrow> dict" where
  "dict_set [] k v = [(k, v)]"
| "dict_set ((k', v') # d) k v = (if k' = k then (k, v) # d else (k', v') # dict_set d k v)"

text \<open>\<^verbatim>\<open>str.lower()\<close>, on the ASCII letters.\<close>

definition lower_char :: "char \<Rightarrow> char" where
  "lower_char c =
     (case map_of (zip ''ABCDEFGHIJKLMNOPQRSTUVWXYZ'' ''abcdefghijklmnopqrstuvwxyz'') c of
        None \<Rightarrow> c | Some l \<Rightarrow> l)"

definition lower :: "string \<Rightarrow> string" where
  "lower s = map lower_char s"

section \<open>The HTTP capability and the request trace\<close>

text \<open>
  The handler talks to the tracker through the \<^verbatim>\<open>requests\<close> library. A request is
  recorded by its method, its URL and its payload (\<^verbatim>\<open>json=\<close> for POST and PUT,
  \<^verbatim>\<open>params=\<close> for GET). The URLs are f-strings over values of the program; they are
  kept structured, one constructor per f-string of the source:
  \<^item> \<open>Api t\<close> is \<^verbatim>\<open>{jira_api_base_url}/{api_type}\<close>,
  \<^item> \<open>ApiKey t k\<close> is \<^verbatim>\<open>{jira_api_base_url}/{api_type}/{issue_key}\<close>,
  \<^item> \<open>Boards p\<close> is \<^verbatim>\<open>{jira_url}/rest/agile/1.0/board?projectKeyOrId={project_id}\<close>,
  \<^item> \<open>Sprints b\<close> is \<^verbatim>\<open>{jira_url}/rest/agile/1.0/board/{board_id}/sprint\<close>.
  A response carries its status code, its text, and what \<^verbatim>\<open>response.json()\<close> returns
  (\<open>None\<close> when it raises ValueError). The tracker is a function from the requests sent
  so far and the current request to an outcome; the trace of requests sent is the state
  every operation threads through.
\<close>

datatype url =
    Api "string option"
  | ApiKey "string option" jval
  | Boards jval
  | Sprints jval

record request =
  meth :: string
  url :: url
  payload :: "jval option"

record response =
  status_code :: int
  resp_text :: string
  json_body :: "jval option"

datatype http_outcome = NetworkFailure | Response response

type_synonym trace = "request list"
type_synonym http = "trace \<Rightarrow> request \<Rightarrow> http_outcome"

text \<open>What \<^verbatim>\<open>send_request\<close> returns: a parsed JSON value, or the response object
  itself (line 143).\<close>

datatype send_result = Parsed jval | Raw response

text \<open>
  \<^verbatim>\<open>send_request\<close> (lines 79-157); \<open>request_url\<close> is the choice of the URL
  (lines 106-112). \<^verbatim>\<open>raise_for_status\<close> raises for a status from 400 to 599. When the
  HTTP call itself raises, \<^verbatim>\<open>response\<close> is unbound in the handler of line 146, whose
  \<^verbatim>\<open>response.json()\<close> then raises UnboundLocalError. A custom URL of the callers is
  never the empty string, so \<open>Some c\<close> is true at line 106.
\<close>

definition request_url :: "string option \<Rightarrow> url option \<Rightarrow> jval \<Rightarrow> string \<Rightarrow> url" where
  "request_url api_type custom_jira_api_base_url issue_key method =
     (case custom_jira_api_base_url of
        Some c \<Rightarrow> c
      | None \<Rightarrow>
          if lower method \<in> set [''put'', ''get''] \<and> truthy issue_key
          then ApiKey api_type issue_key
          else Api api_type)"

definition send_request ::
  "http \<Rightarrow> string option \<Rightarrow> url option \<Rightarrow> jval \<Rightarrow> jval option \<Rightarrow> string \<Rightarrow> trace
     \<Rightarrow> (error + send_result) \<times> trace" where
  "send_request http api_type custom_jira_api_base_url issue_key jira_request_data method tr =
     (if lower method \<notin> set [''post'', ''put'', ''get'']
      then (Inl (ValueError ''Invalid HTTP method''), tr)
      else
        let req = \<lparr>meth = lower method,
                   url = request_url api_type custom_jira_api_base_url issue_key method,
                   payload = jira_request_data\<rparr>
        in case http tr req of
             NetworkFailure \<Rightarrow> (Inl UnboundLocalError, tr @ [req])
           | Response r \<Rightarrow>
               if 400 \<le> status_code r \<and> status_code r < 600
               then (Inl (HTTPError (status_code r)), tr @ [req])
               else if resp_text r \<noteq> []
               then (case json_body r of
                       Some j \<Rightarrow> (Inr (Parsed j), tr @ [req])
                     | None \<Rightarrow>
                         (Inr (Parsed (JDict [(''response_text'', JStr (resp_text r))])),
                          tr @ [req]))
               else (Inr (Raw r), tr @ [req]))"

text \<open>The operations of the callers on a result of \<^verbatim>\<open>send_request\<close>. A response
  object is not subscriptable and has no \<^verbatim>\<open>get\<close>; iterating it yields the chunks of
  its content, and it is returned only when the content is empty.\<close>

fun result_getitem :: "send_result \<Rightarrow> string \<Rightarrow> error + jval" where
  "result_getitem (Parsed v) k = py_getitem v k"
| "result_getitem (Raw r) k = Inl TypeError"

fun result_get :: "send_result \<Rightarrow> string \<Rightarrow> jval \<Rightarrow> error + jval" where
  "result_get (Parsed v) k dflt = py_get v k dflt"
| "result_get (Raw r) k dflt = Inl AttributeError"

fun result_iter :: "send_result \<Rightarrow> error + jval list" where
  "result_iter (Parsed v) = py_iter v"
| "result_iter (Raw r) = Inr []"

section \<open>Lookup of project, board and sprint\<close>

text \<open>The loop of \<^verbatim>\<open>get_project_id_by_key\<close> (lines 174-178).\<close>

fun find_project :: "jval list \<Rightarrow> string \<Rightarrow> error + jval" where
  "find_project [] project_key = Inl (RuntimeError ''Project key not found'')"
| "find_project (project # ps) project_key =
     (case py_getitem project ''key'' of
        Inl e \<Rightarrow> Inl e
      | Inr k \<Rightarrow>
          if py_eq k (JStr project_key) then py_getitem project ''id''
          else find_project ps project_key)"

definition get_project_id_by_key :: "http \<Rightarrow> string \<Rightarrow> trace \<Rightarrow> (error + jval) \<times> trace" where
  "get_project_id_by_key http project_key tr =
     (case send_request http (Some ''project'') None JNull None ''get'' tr of
        (Inl e, tr') \<Rightarrow> (Inl e, tr')
      | (Inr response, tr') \<Rightarrow>
          (case result_iter response of
             Inl e \<Rightarrow> (Inl e, tr')
           | Inr projects \<Rightarrow> (find_project projects project_key, tr')))"

text \<open>\<^verbatim>\<open>get_board_id_by_project_key\<close> (lines 180-202): the first board's id.\<close>

definition get_board_id_by_project_key ::
  "http \<Rightarrow> string \<Rightarrow> trace \<Rightarrow> (error + jval) \<times> trace" where
  "get_board_id_by_project_key http project_key tr =
     (case get_project_id_by_key http project_key tr of
        (Inl e, tr') \<Rightarrow> (Inl e, tr')
      | (Inr project_id, tr') \<Rightarrow>
          (case send_request http None (Some (Boards project_id)) JNull None ''get'' tr' of
             (Inl e, tr'') \<Rightarrow> (Inl e, tr'')
           | (Inr response, tr'') \<Rightarrow>
               (case result_get response ''values'' (JList []) of
                  Inl e \<Rightarrow> (Inl e, tr'')
                | Inr vals \<Rightarrow>
                    (case py_iter vals of
                       Inl e \<Rightarrow> (Inl e, tr'')
                     | Inr [] \<Rightarrow> (Inl (RuntimeError ''No boards found for project key''), tr'')
                     | Inr (board # _) \<Rightarrow> (py_getitem board ''id'', tr'')))))"

text \<open>The loop of \<^verbatim>\<open>get_sprint_id\<close> (lines 223-228); \<^verbatim>\<open>None\<close> when no sprint
  has the name.\<close>

fun find_sprint :: "jval list \<Rightarrow> jval \<Rightarrow> error + jval" where
  "find_sprint [] sprint_name = Inr JNull"
| "find_sprint (sprint # ss) sprint_name =
     (case py_getitem sprint ''name'' of
        Inl e \<Rightarrow> Inl e
      | Inr n \<Rightarrow>
          if py_eq n sprint_name then py_getitem sprint ''id''
          else find_sprint ss sprint_name)"

definition get_sprint_id :: "http \<Rightarrow> jval \<Rightarrow> jval \<Rightarrow> trace \<Rightarrow> (error + jval) \<times> trace" where
  "get_sprint_id http board_id sprint_name tr =
     (case send_request http None (Some (Sprints board_id)) JNull None ''get'' tr of
        (Inl e, tr') \<Rightarrow> (Inl e, tr')
      | (Inr response, tr') \<Rightarrow>
          (case result_get response ''values'' (JList []) of
             Inl e \<Rightarrow> (Inl e, tr')
           | Inr vals \<Rightarrow>
               (case py_iter vals of
                  Inl e \<Rightarrow> (Inl e, tr')
                | Inr sprints \<Rightarrow> (find_sprint sprints sprint_name, tr'))))"

section \<open>The configuration\<close>

text \<open>
  The four tables of \<^verbatim>\<open>jira_special_fields\<close> (lines 44-51). An entry of
  \<^verbatim>\<open>custom_field_mapping\<close> is the wire id of a field, a string, or one of the nested
  mappings \<^verbatim>\<open>key_format_fields\<close> and \<^verbatim>\<open>name_format_fields\<close> from field names to wire
  ids.
\<close>

datatype cfm_entry = WireId string | Nested "(string \<times> string) list"

record config =
  name_format_fields :: "string list"
  key_format_fields :: "string list"
  custom_field_mapping :: "(string \<times> cfm_entry) list"
  post_creation_update_fields :: "string list"

section \<open>Field translation\<close>

text \<open>
  \<^verbatim>\<open>transform_field_value\<close> (lines 269-273). For a dictionary the comprehension
  \<^verbatim>\<open>[{key: val} for key, val in field_value]\<close> iterates the dictionary itself, that is its
  keys, and unpacks each key, a string, into \<^verbatim>\<open>key, val\<close>: a key of two characters gives
  its two characters, any other key raises ValueError.
\<close>

fun unpack_pair :: "string \<Rightarrow> error + (string \<times> string)" where
  "unpack_pair [] = Inl (ValueError ''not enough values to unpack'')"
| "unpack_pair [a] = Inl (ValueError ''not enough values to unpack'')"
| "unpack_pair [a, b] = Inr ([a], [b])"
| "unpack_pair (a # b # c # s) = Inl (ValueError ''too many values to unpack'')"

fun unpack_keys :: "string list \<Rightarrow> error + jval list" where
  "unpack_keys [] = Inr []"
| "unpack_keys (k # ks) =
     (case unpack_pair k of
        Inl e \<Rightarrow> Inl e
      | Inr (key, val) \<Rightarrow>
          (case unpack_keys ks of
             Inl e \<Rightarrow> Inl e
           | Inr out \<Rightarrow> Inr (JDict [(key, JStr val)] # out)))"

fun transform_field_value :: "jval \<Rightarrow> string \<Rightarrow> error + jval" where
  "transform_field_value (JDict d) key_type =
     (case unpack_keys (map fst d) of Inl e \<Rightarrow> Inl e | Inr out \<Rightarrow> Inr (JList out))"
| "transform_field_value field_value key_type = Inr (JDict [(key_type, field_value)])"

text \<open>\<^verbatim>\<open>issue_data['fields'][name] = value\<close> for a name taken from the custom field
  mapping: a nested mapping is not hashable.\<close>

fun set_custom :: "cfm_entry \<Rightarrow> jval \<Rightarrow> dict \<Rightarrow> error + dict" where
  "set_custom (WireId w) v acc = Inr (dict_set acc w v)"
| "set_custom (Nested m) v acc = Inl TypeError"

text \<open>
  The body of the loop of \<^verbatim>\<open>_build_issue_data\<close> (lines 279-319) for one field; \<open>acc\<close>
  is \<^verbatim>\<open>issue_data['fields']\<close>.
\<close>

definition build_field ::
  "config \<Rightarrow> http \<Rightarrow> string \<Rightarrow> string list \<Rightarrow> string \<Rightarrow> jval \<Rightarrow> dict \<Rightarrow> trace
     \<Rightarrow> (error + dict) \<times> trace" where
  "build_field cfg http jira_project exclude_fields field_name field_value acc tr =
     (if field_name = ''issues'' then (Inr acc, tr)
      else if field_name \<in> set exclude_fields then (Inr acc, tr)
      else if field_name = ''issuelinks'' then (Inr acc, tr)
      else if field_name \<in> set (key_format_fields cfg) then
        (case transform_field_value field_value ''key'' of
           Inl e \<Rightarrow> (Inl e, tr)
         | Inr v \<Rightarrow> (Inr (dict_set acc field_name v), tr))
      else if field_name \<in> set (name_format_fields cfg) then
        (case transform_field_value field_value ''name'' of
           Inl e \<Rightarrow> (Inl e, tr)
         | Inr v \<Rightarrow> (Inr (dict_set acc field_name v), tr))
      else
        (case map_of (custom_field_mapping cfg) field_name of
           Some custom_field_name \<Rightarrow>
             if field_name = ''sprint'' then
               (case get_board_id_by_project_key http jira_project tr of
                  (Inl e, tr') \<Rightarrow> (Inl e, tr')
                | (Inr project_board_id, tr') \<Rightarrow>
                    (case get_sprint_id http project_board_id field_value tr' of
                       (Inl e, tr'') \<Rightarrow> (Inl e, tr'')
                     | (Inr sprint_id, tr'') \<Rightarrow>
                         (set_custom custom_field_name sprint_id acc, tr'')))
             else (set_custom custom_field_name field_value acc, tr)
         | None \<Rightarrow>
             (case map_of (custom_field_mapping cfg) ''key_format_fields'' of
                None \<Rightarrow> (Inl (KeyError ''key_format_fields''), tr)
              | Some (WireId w) \<Rightarrow> (Inl AttributeError, tr)
              | Some (Nested kf) \<Rightarrow>
                  (case map_of kf field_name of
                     Some custom_field_name \<Rightarrow>
                       (case transform_field_value field_value ''key'' of
                          Inl e \<Rightarrow> (Inl e, tr)
                        | Inr v \<Rightarrow> (Inr (dict_set acc custom_field_name v), tr))
                   | None \<Rightarrow>
                       (case map_of (custom_field_mapping cfg) ''name_format_fields'' of
                          None \<Rightarrow> (Inl (KeyError ''name_format_fields''), tr)
                        | Some (WireId w) \<Rightarrow> (Inl AttributeError, tr)
                        | Some (Nested nf) \<Rightarrow>
                            (case map_of nf field_name of
                               Some custom_field_name \<Rightarrow>
                                 (case transform_field_value field_value ''name'' of
                                    Inl e \<Rightarrow> (Inl e, tr)
                                  | Inr v \<Rightarrow> (Inr (dict_set acc custom_field_name v), tr))
                             | None \<Rightarrow> (Inr (dict_set acc field_name field_value), tr)))))))"

text \<open>The loop over \<^verbatim>\<open>fields.items()\<close>, in the dictionary's order.\<close>

fun build_loop ::
  "config \<Rightarrow> http \<Rightarrow> string \<Rightarrow> string list \<Rightarrow> dict \<Rightarrow> dict \<Rightarrow> trace
     \<Rightarrow> (error + dict) \<times> trace" where
  "build_loop cfg http jira_project exclude_fields [] acc tr = (Inr acc, tr)"
| "build_loop cfg http jira_project exclude_fields ((field_name, field_value) # rest) acc tr =
     (case build_field cfg http jira_project exclude_fields field_name field_value acc tr of
        (Inl e, tr') \<Rightarrow> (Inl e, tr')
      | (Inr acc', tr') \<Rightarrow> build_loop cfg http jira_project exclude_fields rest acc' tr')"

text \<open>
  \<^verbatim>\<open>_build_issue_data\<close> (lines 252-320). The source returns \<^verbatim>\<open>{'fields': F}\<close>; the
  model returns \<open>F\<close>, and \<open>issue_data F\<close> is the dictionary around it, built where a
  request body is needed.
\<close>

definition build_issue_data ::
  "config \<Rightarrow> http \<Rightarrow> string \<Rightarrow> dict \<Rightarrow> string list \<Rightarrow> trace \<Rightarrow> (error + dict) \<times> trace" where
  "build_issue_data cfg http jira_project flds exclude_fields tr =
     build_loop cfg http jira_project exclude_fields flds [] tr"

definition issue_data :: "dict \<Rightarrow> jval" where
  "issue_data F = JDict [(''fields'', JDict F)]"

section \<open>Creating one issue\<close>

text \<open>\<^verbatim>\<open>link_jira_issues\<close> (lines 230-250).\<close>

definition link_jira_issues ::
  "http \<Rightarrow> jval \<Rightarrow> jval \<Rightarrow> jval \<Rightarrow> trace \<Rightarrow> (error + send_result) \<times> trace" where
  "link_jira_issues http issue_key issue_parent_key link_type tr =
     send_request http (Some ''issueLink'') None JNull
       (Some (JDict [(''type'', JDict [(''name'', link_type)]),
                     (''inwardIssue'', JDict [(''key'', issue_key)]),
                     (''outwardIssue'', JDict [(''key'', issue_parent_key)])]))
       ''post'' tr"

text \<open>Lines 359-367 of \<^verbatim>\<open>create_new_jira_issue\<close>: the project, then the epic link or
  the parent of a sub-task. \<^verbatim>\<open>jira_issue.get('issuetype')\<close> is \<^verbatim>\<open>None\<close> for a missing
  key.\<close>

definition set_project_and_parent ::
  "config \<Rightarrow> string \<Rightarrow> dict \<Rightarrow> jval \<Rightarrow> jval \<Rightarrow> dict \<Rightarrow> error + dict" where
  "set_project_and_parent cfg jira_project jira_issue epic_key parent_key F =
     (let F1 = dict_set F ''project'' (JDict [(''key'', JStr jira_project)]);
          issuetype = (case map_of jira_issue ''issuetype'' of None \<Rightarrow> JNull | Some t \<Rightarrow> t)
      in if truthy epic_key \<and> \<not> py_eq issuetype (JStr ''Sub-task'') then
           (case map_of (custom_field_mapping cfg) ''epicLink'' of
              None \<Rightarrow> Inl (KeyError ''epicLink'')
            | Some epic_link \<Rightarrow> set_custom epic_link epic_key F1)
         else if py_eq issuetype (JStr ''Sub-task'') \<and> truthy parent_key then
           Inr (dict_set F1 ''parent'' (JDict [(''key'', parent_key)]))
         else Inr F1)"

text \<open>Line 382-383: the keys of the issue that are not post-creation fields.\<close>

definition fields_set_during_issue_creation :: "config \<Rightarrow> dict \<Rightarrow> string list" where
  "fields_set_during_issue_creation cfg jira_issue =
     filter (\<lambda>k. k \<notin> set (post_creation_update_fields cfg)) (map fst jira_issue)"

text \<open>
  The loop of lines 395-397 assigns \<^verbatim>\<open>link_type\<close> and \<^verbatim>\<open>issue_parent_key\<close> for each
  entry of \<^verbatim>\<open>issuelinks\<close>; \<open>cur\<close> holds the two variables, \<open>None\<close> while they are
  unbound.
\<close>

fun issuelinks_loop :: "jval list \<Rightarrow> (jval \<times> jval) option \<Rightarrow> error + (jval \<times> jval) option" where
  "issuelinks_loop [] cur = Inr cur"
| "issuelinks_loop (link # ls) cur =
     (case py_getitem link ''type'' of
        Inl e \<Rightarrow> Inl e
      | Inr t \<Rightarrow>
          (case py_get t ''name'' (JStr ''Related'') of
             Inl e \<Rightarrow> Inl e
           | Inr link_type \<Rightarrow>
               (case py_getitem link ''outwardIssue'' of
                  Inl e \<Rightarrow> Inl e
                | Inr out \<Rightarrow>
                    (case py_get out ''key'' (JStr []) of
                       Inl e \<Rightarrow> Inl e
                     | Inr issue_parent_key \<Rightarrow>
                         issuelinks_loop ls (Some (link_type, issue_parent_key))))))"

text \<open>
  Lines 394-400: the statements after the loop (the log line, which reads both variables,
  and the call of \<^verbatim>\<open>link_jira_issues\<close>) are at the indentation of the \<^verbatim>\<open>for\<close>, so
  they run once, after the loop.
\<close>

definition link_issuelinks :: "http \<Rightarrow> dict \<Rightarrow> jval \<Rightarrow> trace \<Rightarrow> (error + unit) \<times> trace" where
  "link_issuelinks http jira_issue issue_key tr =
     (case map_of jira_issue ''issuelinks'' of
        None \<Rightarrow> (Inr (), tr)
      | Some links \<Rightarrow>
          (case py_iter links of
             Inl e \<Rightarrow> (Inl e, tr)
           | Inr ls \<Rightarrow>
               (case issuelinks_loop ls None of
                  Inl e \<Rightarrow> (Inl e, tr)
                | Inr None \<Rightarrow> (Inl UnboundLocalError, tr)
                | Inr (Some (link_type, issue_parent_key)) \<Rightarrow>
                    (case link_jira_issues http issue_key issue_parent_key link_type tr of
                       (Inl e, tr') \<Rightarrow> (Inl e, tr')
                     | (Inr r, tr') \<Rightarrow> (Inr (), tr')))))"

text \<open>Lines 387-392: the update request, sent when there is a field to update.\<close>

definition send_update :: "http \<Rightarrow> jval \<Rightarrow> dict \<Rightarrow> trace \<Rightarrow> (error + unit) \<times> trace" where
  "send_update http issue_key update_data tr =
     (if update_data \<noteq> [] then
        (case send_request http (Some ''issue'') None issue_key
                (Some (issue_data update_data)) ''put'' tr of
           (Inl e, tr') \<Rightarrow> (Inl e, tr')
         | (Inr r, tr') \<Rightarrow> (Inr (), tr'))
      else (Inr (), tr))"

text \<open>Lines 373-402 of \<^verbatim>\<open>create_new_jira_issue\<close>, what follows the creation
  request: the key of the response, the update with the post-creation fields, the
  links.\<close>

definition update_and_link ::
  "config \<Rightarrow> http \<Rightarrow> string \<Rightarrow> dict \<Rightarrow> send_result \<Rightarrow> trace
     \<Rightarrow> (error + send_result) \<times> trace" where
  "update_and_link cfg http jira_project jira_issue response_data tr =
     (case result_getitem response_data ''key'' of
        Inl e \<Rightarrow> (Inl e, tr)
      | Inr issue_key \<Rightarrow>
          if \<not> truthy issue_key then
            (Inl (ValueError ''Failed to retrieve issue key from the Jira response''), tr)
          else
            (case build_issue_data cfg http jira_project jira_issue
                    (fields_set_during_issue_creation cfg jira_issue) tr of
               (Inl e, tr3) \<Rightarrow> (Inl e, tr3)
             | (Inr update_data, tr3) \<Rightarrow>
                 (case send_update http issue_key update_data tr3 of
                    (Inl e, tr4) \<Rightarrow> (Inl e, tr4)
                  | (Inr u, tr4) \<Rightarrow>
                      (case link_issuelinks http jira_issue issue_key tr4 of
                         (Inl e, tr5) \<Rightarrow> (Inl e, tr5)
                       | (Inr u', tr5) \<Rightarrow> (Inr response_data, tr5)))))"

text \<open>\<^verbatim>\<open>create_new_jira_issue\<close> (lines 322-402).\<close>

definition create_new_jira_issue ::
  "config \<Rightarrow> http \<Rightarrow> string \<Rightarrow> dict \<Rightarrow> jval \<Rightarrow> jval \<Rightarrow> trace
     \<Rightarrow> (error + send_result) \<times> trace" where
  "create_new_jira_issue cfg http jira_project jira_issue epic_key parent_key tr =
     (case build_issue_data cfg http jira_project jira_issue
             (post_creation_update_fields cfg) tr of
        (Inl e, tr1) \<Rightarrow> (Inl e, tr1)
      | (Inr F, tr1) \<Rightarrow>
          (case set_project_and_parent cfg jira_project jira_issue epic_key parent_key F of
             Inl e \<Rightarrow> (Inl e, tr1)
           | Inr initial_issue_data \<Rightarrow>
               (case send_request http (Some ''issue'') None JNull
                       (Some (issue_data initial_issue_data)) ''post'' tr1 of
                  (Inl e, tr2) \<Rightarrow> (Inl e, tr2)
                | (Inr response_data, tr2) \<Rightarrow>
                    update_and_link cfg http jira_project jira_issue response_data tr2)))"

section \<open>The tree walk\<close>

text \<open>
  Lines 420-440 of \<^verbatim>\<open>create_list_of_jira_issues\<close>, the part of the loop body before
  the recursion: the log line reads \<^verbatim>\<open>issue["issuetype"]\<close> and \<^verbatim>\<open>issue["summary"]\<close>,
  the issue is created, and a child that is not a sub-task is linked to its parent. The
  result is the issue and its new key.
\<close>

definition create_list_step ::
  "config \<Rightarrow> http \<Rightarrow> string \<Rightarrow> jval \<Rightarrow> jval \<Rightarrow> jval \<Rightarrow> trace
     \<Rightarrow> (error + (dict \<times> jval)) \<times> trace" where
  "create_list_step cfg http jira_project x epic_key issue_parent_key tr =
     (case x of
        JDict issue \<Rightarrow>
          (case map_of issue ''issuetype'' of
             None \<Rightarrow> (Inl (KeyError ''issuetype''), tr)
           | Some issuetype \<Rightarrow>
               (case map_of issue ''summary'' of
                  None \<Rightarrow> (Inl (KeyError ''summary''), tr)
                | Some summary \<Rightarrow>
                    (case create_new_jira_issue cfg http jira_project issue epic_key
                            issue_parent_key tr of
                       (Inl e, tr1) \<Rightarrow> (Inl e, tr1)
                     | (Inr issue_create_response, tr1) \<Rightarrow>
                         (case result_getitem issue_create_response ''key'' of
                            Inl e \<Rightarrow> (Inl e, tr1)
                          | Inr issue_key \<Rightarrow>
                              if truthy issue_parent_key
                                 \<and> \<not> py_eq issuetype (JStr ''Sub-task'')
                              then
                                (case link_jira_issues http issue_key issue_parent_key
                                        (case map_of issue ''linkType'' of
                                           None \<Rightarrow> JStr ''Related'' | Some t \<Rightarrow> t) tr1 of
                                   (Inl e, tr2) \<Rightarrow> (Inl e, tr2)
                                 | (Inr r, tr2) \<Rightarrow> (Inr (issue, issue_key), tr2))
                              else (Inr (issue, issue_key), tr1)))))
      | _ \<Rightarrow> (Inl TypeError, tr))"

text \<open>
  A measure for the recursion over nested \<^verbatim>\<open>issues\<close>: lists and dictionaries weigh
  more than what they hold. The characters of a string are strings again, so the size of
  a value would not do; the walk stops at a string because a string is not a dictionary.
\<close>

fun wt :: "jval \<Rightarrow> nat" where
  "wt (JList xs) = Suc (sum_list (map wt xs))"
| "wt (JDict d) = Suc (sum_list (map (\<lambda>(k, v). wt v) d))"
| "wt _ = 0"

lemma wt_map_of: "map_of d k = Some v \<Longrightarrow> wt v \<le> sum_list (map (\<lambda>(k, v). wt v) d)"
  by (induction d) (auto split: if_splits)

lemma wt_py_iter: "py_iter v = Inr cs \<Longrightarrow> sum_list (map wt cs) \<le> wt v"
  by (cases v) (auto simp: comp_def)

lemma wt_children:
  "map_of issue ''issues'' = Some children \<Longrightarrow> py_iter children = Inr cs
   \<Longrightarrow> sum_list (map wt cs) < wt (JDict issue)"
  using wt_map_of [of issue "''issues''" children] wt_py_iter [of children cs] by simp

lemma wt_JDict_pos: "0 < wt (JDict d)"
  by simp

lemma create_list_step_Inr:
  "create_list_step cfg http p x ek pk tr = (Inr (issue, k), tr') \<Longrightarrow> x = JDict issue"
  by (auto simp: create_list_step_def
           split: jval.splits option.splits prod.splits sum.splits if_splits)

text \<open>The loop of \<^verbatim>\<open>create_list_of_jira_issues\<close> (lines 419-445) over the elements
  of \<^verbatim>\<open>jira_issues\<close>, with the recursion into \<^verbatim>\<open>issue['issues']\<close>.\<close>

function create_list_loop ::
  "config \<Rightarrow> http \<Rightarrow> string \<Rightarrow> jval list \<Rightarrow> jval \<Rightarrow> jval \<Rightarrow> trace \<Rightarrow> (error + unit) \<times> trace" where
  "create_list_loop cfg http jira_project [] epic_key issue_parent_key tr = (Inr (), tr)"
| "create_list_loop cfg http jira_project (x # rest) epic_key issue_parent_key tr =
     (case create_list_step cfg http jira_project x epic_key issue_parent_key tr of
        (Inl e, tr2) \<Rightarrow> (Inl e, tr2)
      | (Inr (issue, issue_key), tr2) \<Rightarrow>
          (case map_of issue ''issues'' of
             None \<Rightarrow> create_list_loop cfg http jira_project rest epic_key issue_parent_key tr2
           | Some children \<Rightarrow>
               (case py_iter children of
                  Inl e \<Rightarrow> (Inl e, tr2)
                | Inr cs \<Rightarrow>
                    (case create_list_loop cfg http jira_project cs epic_key issue_key tr2 of
                       (Inl e, tr3) \<Rightarrow> (Inl e, tr3)
                     | (Inr u, tr3) \<Rightarrow>
                         create_list_loop cfg http jira_project rest epic_key
                           issue_parent_key tr3))))"
  by pat_completeness auto
termination
  apply (relation "measure (\<lambda>(cfg, http, p, issues, ek, pk, tr). sum_list (map wt issues))")
     apply simp
    apply (auto dest!: create_list_step_Inr [OF sym] wt_children
                simp: wt_JDict_pos simp del: wt.simps)
  done

definition create_list_of_jira_issues ::
  "config \<Rightarrow> http \<Rightarrow> string \<Rightarrow> jval \<Rightarrow> jval \<Rightarrow> jval \<Rightarrow> trace \<Rightarrow> (error + unit) \<times> trace" where
  "create_list_of_jira_issues cfg http jira_project jira_issues epic_key issue_parent_key tr =
     (case py_iter jira_issues of
        Inl e \<Rightarrow> (Inl e, tr)
      | Inr xs \<Rightarrow> create_list_loop cfg http jira_project xs epic_key issue_parent_key tr)"

text \<open>The body of the loop of \<^verbatim>\<open>create_epics_and_issues\<close> (lines 461-476) for one
  epic; the handler of KeyError logs and raises the same error again.\<close>

definition create_epic :: "config \<Rightarrow> http \<Rightarrow> string \<Rightarrow> jval \<Rightarrow> trace \<Rightarrow> (error + unit) \<times> trace" where
  "create_epic cfg http jira_project x tr =
     (case x of
        JDict epic \<Rightarrow>
          (case map_of epic ''epicName'' of
             None \<Rightarrow> (Inl (KeyError ''epicName''), tr)
           | Some epic_name \<Rightarrow>
               (case create_new_jira_issue cfg http jira_project epic JNull JNull tr of
                  (Inl e, tr1) \<Rightarrow> (Inl e, tr1)
                | (Inr epic_create_response, tr1) \<Rightarrow>
                    (case result_getitem epic_create_response ''key'' of
                       Inl e \<Rightarrow> (Inl e, tr1)
                     | Inr epic_key \<Rightarrow>
                         (case map_of epic ''issues'' of
                            None \<Rightarrow> (Inr (), tr1)
                          | Some children \<Rightarrow>
                              create_list_of_jira_issues cfg http jira_project children
                                epic_key JNull tr1))))
      | _ \<Rightarrow> (Inl TypeError, tr))"

fun create_epics_and_issues ::
  "config \<Rightarrow> http \<Rightarrow> string \<Rightarrow> jval list \<Rightarrow> trace \<Rightarrow> (error + unit) \<times> trace" where
  "create_epics_and_issues cfg http jira_project [] tr = (Inr (), tr)"
| "create_epics_and_issues cfg http jira_project (epic # epics) tr =
     (case create_epic cfg http jira_project epic tr of
        (Inl e, tr') \<Rightarrow> (Inl e, tr')
      | (Inr u, tr') \<Rightarrow> create_epics_and_issues cfg http jira_project epics tr')"

section \<open>Notions used to state the properties\<close>

text \<open>A mapping value, as opposed to a scalar.\<close>

fun is_dict :: "jval \<Rightarrow> bool" where
  "is_dict (JDict d) = True"
| "is_dict v = False"

text \<open>The wire ids the configuration can write under: the ids of the custom field
  mapping and of its nested mappings.\<close>

definition wire_ids :: "config \<Rightarrow> string list" where
  "wire_ids cfg =
     concat (map (\<lambda>(k, e). case e of WireId w \<Rightarrow> [w] | Nested m \<Rightarrow> map snd m)
                 (custom_field_mapping cfg))"

text \<open>A field name that none of the tests of lines 279-296 matches: it reaches
  line 307.\<close>

definition falls_through :: "config \<Rightarrow> string list \<Rightarrow> string \<Rightarrow> bool" where
  "falls_through cfg exclude_fields field_name =
     (field_name \<noteq> ''issues'' \<and> field_name \<notin> set exclude_fields
      \<and> field_name \<noteq> ''issuelinks''
      \<and> field_name \<notin> set (key_format_fields cfg)
      \<and> field_name \<notin> set (name_format_fields cfg)
      \<and> map_of (custom_field_mapping cfg) field_name = None)"

text \<open>The configuration lacks a nested mapping that the translation of the field
  reads: \<^verbatim>\<open>key_format_fields\<close>, or, when that one is there and does not hold the
  field, \<^verbatim>\<open>name_format_fields\<close>.\<close>

definition lacks_nested :: "config \<Rightarrow> string \<Rightarrow> bool" where
  "lacks_nested cfg field_name =
     (case map_of (custom_field_mapping cfg) ''key_format_fields'' of
        None \<Rightarrow> True
      | Some (WireId w) \<Rightarrow> False
      | Some (Nested kf) \<Rightarrow>
          map_of kf field_name = None
          \<and> map_of (custom_field_mapping cfg) ''name_format_fields'' = None)"

text \<open>A sprint of a board's sprint list: an object with a name and an id; and a sprint
  with a given name.\<close>

definition sprint_wf :: "jval \<Rightarrow> bool" where
  "sprint_wf s =
     (case s of
        JDict d \<Rightarrow> map_of d ''name'' \<noteq> None \<and> map_of d ''id'' \<noteq> None
      | _ \<Rightarrow> False)"

definition sprint_named :: "string \<Rightarrow> jval \<Rightarrow> bool" where
  "sprint_named n s = (py_getitem s ''name'' = Inr (JStr n))"

text \<open>
  The requests of the handler. A lookup is a GET without a payload; the creation request
  posts \<^verbatim>\<open>{'fields': F}\<close> to \<^verbatim>\<open>issue\<close> (lines 370-372), the update request puts it
  to \<^verbatim>\<open>issue/{issue_key}\<close> (lines 389-392), the link request posts the link data to
  \<^verbatim>\<open>issueLink\<close> (lines 245-250).
\<close>

definition is_get :: "request \<Rightarrow> bool" where
  "is_get r = (meth r = ''get'' \<and> payload r = None)"

definition creation_request :: "dict \<Rightarrow> request" where
  "creation_request F =
     \<lparr>meth = ''post'', url = Api (Some ''issue''), payload = Some (issue_data F)\<rparr>"

definition update_request :: "jval \<Rightarrow> dict \<Rightarrow> request" where
  "update_request issue_key F =
     \<lparr>meth = ''put'', url = ApiKey (Some ''issue'') issue_key, payload = Some (issue_data F)\<rparr>"

definition link_request :: "jval \<Rightarrow> jval \<Rightarrow> jval \<Rightarrow> request" where
  "link_request issue_key issue_parent_key link_type =
     \<lparr>meth = ''post'', url = Api (Some ''issueLink''),
      payload = Some (JDict [(''type'', JDict [(''name'', link_type)]),
                             (''inwardIssue'', JDict [(''key'', issue_key)]),
                             (''outwardIssue'', JDict [(''key'', issue_parent_key)])])\<rparr>"

definition is_link :: "request \<Rightarrow> bool" where
  "is_link r = (\<exists>a b c. r = link_request a b c)"

definition is_creation :: "request \<Rightarrow> bool" where
  "is_creation r = (meth r = ''post'' \<and> url r = Api (Some ''issue''))"

text \<open>
  The nested specification, as the spec reads it: the children of a node are the elements
  of its \<^verbatim>\<open>issues\<close>, and \<open>preorder\<close> lists a forest depth-first in the order of the
  input, each node before its children and these before the node's later siblings.
\<close>

definition children :: "jval \<Rightarrow> jval list" where
  "children x =
     (case x of
        JDict issue \<Rightarrow>
          (case map_of issue ''issues'' of
             None \<Rightarrow> []
           | Some c \<Rightarrow> (case py_iter c of Inl e \<Rightarrow> [] | Inr cs \<Rightarrow> cs))
      | _ \<Rightarrow> [])"

lemma wt_children_less: "sum_list (map wt (children (JDict issue))) < wt (JDict issue)"
  using wt_children [of issue] wt_JDict_pos [of issue]
  by (auto simp: children_def simp del: wt.simps split: option.splits sum.splits)

lemma children_not_dict: "\<not> is_dict x \<Longrightarrow> children x = []"
  by (cases x) (auto simp: children_def)

function preorder :: "jval list \<Rightarrow> jval list" where
  "preorder [] = []"
| "preorder (x # rest) = x # preorder (children x) @ preorder rest"
  by pat_completeness auto
termination
proof (relation "measures [\<lambda>xs. sum_list (map wt xs), length]", goal_cases)
  case 1
  show ?case by simp
next
  case (2 x rest)
  show ?case
  proof (cases x)
    case (JDict issue)
    with wt_children_less [of issue] show ?thesis by (simp del: wt.simps)
  qed (auto simp: children_def)
next
  case (3 x rest)
  show ?case by auto
qed

text \<open>
  \<open>creates node r\<close>: \<open>r\<close> is a creation request for the node, that is, its body is the
  translation of the node's fields without the post-creation fields, with the project and
  an epic link or parent added (the keys of these depend on the responses so far).
  \<open>updates r\<close>: \<open>r\<close> is an update request with the post-creation fields of some issue.
\<close>

definition creates :: "config \<Rightarrow> http \<Rightarrow> string \<Rightarrow> jval \<Rightarrow> request \<Rightarrow> bool" where
  "creates cfg http p node r =
     (\<exists>issue epic_key parent_key tr F tr1 F'.
        node = JDict issue
        \<and> build_issue_data cfg http p issue (post_creation_update_fields cfg) tr = (Inr F, tr1)
        \<and> set_project_and_parent cfg p issue epic_key parent_key F = Inr F'
        \<and> r = creation_request F')"

definition updates :: "config \<Rightarrow> http \<Rightarrow> string \<Rightarrow> request \<Rightarrow> bool" where
  "updates cfg http p r =
     (\<exists>issue k tr U tr1.
        build_issue_data cfg http p issue (fields_set_during_issue_creation cfg issue) tr
          = (Inr U, tr1)
        \<and> r = update_request k U)"

text \<open>The requests a walk can send; what the call for one node adds to the trace (its
  creation request, if any, among requests of the other kinds); what a walk over a
  forest adds (creation requests for a prefix of the forest's preorder, all of it when the
  walk succeeds).\<close>

definition issue_request :: "config \<Rightarrow> http \<Rightarrow> string \<Rightarrow> request \<Rightarrow> bool" where
  "issue_request cfg http p r =
     (is_get r \<or> is_link r \<or> (\<exists>node. creates cfg http p node r) \<or> updates cfg http p r)"

definition node_done ::
  "config \<Rightarrow> http \<Rightarrow> string \<Rightarrow> jval \<Rightarrow> trace \<Rightarrow> bool \<Rightarrow> trace \<Rightarrow> bool" where
  "node_done cfg http p x tr ok tr' =
     (\<exists>new. tr' = tr @ new \<and> list_all (issue_request cfg http p) new
        \<and> (\<not> ok \<and> filter is_creation new = []
            \<or> (\<exists>r. filter is_creation new = [r] \<and> creates cfg http p x r)))"

definition walked ::
  "config \<Rightarrow> http \<Rightarrow> string \<Rightarrow> jval list \<Rightarrow> trace \<Rightarrow> bool \<Rightarrow> trace \<Rightarrow> bool" where
  "walked cfg http p xs tr ok tr' =
     (\<exists>new done todo. tr' = tr @ new \<and> list_all (issue_request cfg http p) new
        \<and> preorder xs = done @ todo
        \<and> list_all2 (creates cfg http p) done (filter is_creation new)
        \<and> (ok \<longrightarrow> todo = []))"

text \<open>The structural keys in a fields map, in the body of a request, and among the wire
  ids of a configuration.\<close>

definition has_reserved_key :: "dict \<Rightarrow> bool" where
  "has_reserved_key F = (''issues'' \<in> fst ` set F \<or> ''issuelinks'' \<in> fst ` set F)"

definition body_fields :: "request \<Rightarrow> dict option" where
  "body_fields r =
     (case payload r of
        Some (JDict b) \<Rightarrow> (case map_of b ''fields'' of Some (JDict F) \<Rightarrow> Some F | _ \<Rightarrow> None)
      | _ \<Rightarrow> None)"

definition carries_reserved_key :: "request \<Rightarrow> bool" where
  "carries_reserved_key r =
     (case body_fields r of Some F \<Rightarrow> has_reserved_key F | None \<Rightarrow> False)"

definition no_reserved_wire_id :: "config \<Rightarrow> bool" where
  "no_reserved_wire_id cfg =
     (''issues'' \<notin> set (wire_ids cfg) \<and> ''issuelinks'' \<notin> set (wire_ids cfg))"

text \<open>The fields of an issue that are sent at creation, and those deferred to the
  update: the fields whose names are not, or are, post-creation fields; the structural
  keys belong to neither.\<close>

definition creation_fields :: "config \<Rightarrow> dict \<Rightarrow> dict" where
  "creation_fields cfg jira_issue =
     filter (\<lambda>kv. fst kv \<notin> set (post_creation_update_fields cfg)
                  \<and> fst kv \<noteq> ''issues'' \<and> fst kv \<noteq> ''issuelinks'') jira_issue"

definition deferred_fields :: "config \<Rightarrow> dict \<Rightarrow> dict" where
  "deferred_fields cfg jira_issue =
     filter (\<lambda>kv. fst kv \<in> set (post_creation_update_fields cfg)
                  \<and> fst kv \<noteq> ''issues'' \<and> fst kv \<noteq> ''issuelinks'') jira_issue"

section \<open>Configurations and trackers of the examples\<close>

text \<open>A tracker that answers every request with status 200 and the JSON object
  \<^verbatim>\<open>{"key": "K-1"}\<close> (the text of the body only matters for being non-empty).\<close>

definition tracker_ok :: http where
  "tracker_ok tr req =
     Response \<lparr>status_code = 200, resp_text = ''{...}'',
               json_body = Some (JDict [(''key'', JStr ''K-1'')])\<rparr>"

text \<open>\<^verbatim>\<open>jira_special_fields = {}\<close>: every table takes its default (lines 44-51).\<close>

definition cfg_default :: config where
  "cfg_default =
     \<lparr>name_format_fields = [], key_format_fields = [], custom_field_mapping = [],
      post_creation_update_fields = []\<rparr>"

definition cfg_components :: config where
  "cfg_components =
     \<lparr>name_format_fields = [''priority''], key_format_fields = [''components''],
      custom_field_mapping =
        [(''epicLink'', WireId ''customfield_10014''),
         (''key_format_fields'', Nested []), (''name_format_fields'', Nested [])],
      post_creation_update_fields = []\<rparr>"

text \<open>A configuration that lists \<^verbatim>\<open>priority\<close> in both format tables.\<close>

definition cfg_overlap :: config where
  "cfg_overlap =
     \<lparr>name_format_fields = [''priority''], key_format_fields = [''priority''],
      custom_field_mapping =
        [(''key_format_fields'', Nested []), (''name_format_fields'', Nested [])],
      post_creation_update_fields = []\<rparr>"

text \<open>A tracker whose answer to every request is the sprint list of the spec's example,
  one that answers 201 without a key, and one that answers 204 with an empty body.\<close>

definition tracker_sprints :: http where
  "tracker_sprints tr req =
     Response \<lparr>status_code = 200, resp_text = ''{...}'',
               json_body = Some (JDict [(''values'',
                  JList [JDict [(''name'', JStr ''Sprint 1''), (''id'', JStr ''10'')]])])\<rparr>"

definition tracker_no_key :: http where
  "tracker_no_key tr req =
     Response \<lparr>status_code = 201, resp_text = ''{...}'',
               json_body = Some (JDict [(''id'', JStr ''10000'')])\<rparr>"

definition tracker_no_content :: http where
  "tracker_no_content tr req =
     Response \<lparr>status_code = 204, resp_text = [], json_body = None\<rparr>"

text \<open>An epic with one task, and a task with two entries in \<^verbatim>\<open>issuelinks\<close>.\<close>

definition epic_fields :: dict where
  "epic_fields =
     [(''epicName'', JStr ''E1''), (''summary'', JStr ''E1''), (''issuetype'', JStr ''Epic''),
      (''issues'', JList [JDict [(''summary'', JStr ''T1''), (''issuetype'', JStr ''Task'')]])]"

definition epic_with_task :: jval where
  "epic_with_task = JDict epic_fields"

definition issue_two_links :: dict where
  "issue_two_links =
     [(''summary'', JStr ''T1''), (''issuetype'', JStr ''Task''),
      (''issuelinks'',
         JList [JDict [(''type'', JDict [(''name'', JStr ''Blocks'')]),
                       (''outwardIssue'', JDict [(''key'', JStr ''A-1'')])],
                JDict [(''type'', JDict [(''name'', JStr ''Relates'')]),
                       (''outwardIssue'', JDict [(''key'', JStr ''B-2'')])]])]"

text \<open>A tracker that answers a request with a key made of the summary in the request's
  fields, so that different issues get different keys.\<close>

definition tracker_echo :: http where
  "tracker_echo tr req =
     Response \<lparr>status_code = 201, resp_text = ''{...}'',
               json_body = Some (JDict [(''key'',
                  JStr (''K-'' @ (case body_fields req of
                                    Some F \<Rightarrow> (case map_of F ''summary'' of
                                                 Some (JStr s) \<Rightarrow> s | _ \<Rightarrow> [])
                                  | None \<Rightarrow> [])))])\<rparr>"

text \<open>A configuration that maps the field \<^verbatim>\<open>links\<close> to the wire id \<^verbatim>\<open>issuelinks\<close>,
  and one whose \<^verbatim>\<open>assignee\<close> is a name-format field set after creation.\<close>

definition cfg_links :: config where
  "cfg_links =
     \<lparr>name_format_fields = [], key_format_fields = [],
      custom_field_mapping =
        [(''links'', WireId ''issuelinks''),
         (''key_format_fields'', Nested []), (''name_format_fields'', Nested [])],
      post_creation_update_fields = []\<rparr>"

definition cfg_deferred :: config where
  "cfg_deferred =
     \<lparr>name_format_fields = [''assignee''], key_format_fields = [],
      custom_field_mapping =
        [(''epicLink'', WireId ''customfield_10014''),
         (''key_format_fields'', Nested []), (''name_format_fields'', Nested [])],
      post_creation_update_fields = [''assignee'']\<rparr>"

definition issue_assignee :: dict where
  "issue_assignee =
     [(''summary'', JStr ''T1''), (''assignee'', JStr ''bob''), (''issuetype'', JStr ''Task'')]"

text \<open>An issue that carries a \<^verbatim>\<open>project\<close> field of its own, beside a field set after
  creation.\<close>

definition issue_with_project :: dict where
  "issue_with_project =
     [(''summary'', JStr ''T1''), (''project'', JStr ''OTHER''), (''assignee'', JStr ''bob''),
      (''issuetype'', JStr ''Task'')]"

text \<open>An epic \<open>E\<close> with the issues \<open>I1\<close> and \<open>I2\<close>, where \<open>I1\<close> has a sub-task \<open>S\<close>
  and a task \<open>T\<close>.\<close>

definition subtask_S :: jval where
  "subtask_S = JDict [(''summary'', JStr ''S''), (''issuetype'', JStr ''Sub-task'')]"

definition task_T :: jval where
  "task_T = JDict [(''summary'', JStr ''T''), (''issuetype'', JStr ''Task'')]"

definition issue_I1 :: jval where
  "issue_I1 = JDict [(''summary'', JStr ''I1''), (''issuetype'', JStr ''Story''),
                     (''issues'', JList [subtask_S, task_T])]"

definition issue_I2 :: jval where
  "issue_I2 = JDict [(''summary'', JStr ''I2''), (''issuetype'', JStr ''Task'')]"

definition epic_tree :: jval where
  "epic_tree = JDict [(''epicName'', JStr ''E''), (''summary'', JStr ''E''),
                      (''issuetype'', JStr ''Epic''), (''issues'', JList [issue_I1, issue_I2])]"

section \<open>Evaluation\<close>

lemma lower_simps [simp]:
  "lower ''get'' = ''get''" "lower ''post'' = ''post''" "lower ''put'' = ''put''"
  by (simp_all add: lower_def lower_char_def)

lemma py_eq_JStr: "py_eq v (JStr s) = (v = JStr s)"
  by (cases v) auto

text \<open>The definitions a run on a concrete input unfolds.\<close>

lemmas run_defs = create_new_jira_issue_def update_and_link_def build_issue_data_def build_field_def
  set_project_and_parent_def send_request_def request_url_def issue_data_def
  fields_set_during_issue_creation_def send_update_def link_issuelinks_def
  link_jira_issues_def create_epic_def create_list_of_jira_issues_def create_list_step_def

section \<open>Dictionaries\<close>

lemma map_of_dict_set: "map_of (dict_set d k v) k' = (if k' = k then Some v else map_of d k')"
  by (induction d) auto

lemma keys_dict_set: "fst ` set (dict_set d k v) = insert k (fst ` set d)"
proof -
  have "dom (map_of (dict_set d k v)) = insert k (dom (map_of d))"
    by (auto simp: map_of_dict_set dom_def split: if_splits)
  then show ?thesis by (simp add: dom_map_of_conv_image_fst)
qed

section \<open>Field translation: what the loop body writes\<close>

lemma wire_ids_top:
  "map_of (custom_field_mapping cfg) g = Some (WireId w) \<Longrightarrow> w \<in> set (wire_ids cfg)"
  by (force simp: wire_ids_def dest!: map_of_SomeD)

lemma wire_ids_nested:
  "map_of (custom_field_mapping cfg) n = Some (Nested m) \<Longrightarrow> map_of m g = Some w
   \<Longrightarrow> w \<in> set (wire_ids cfg)"
  by (force simp: wire_ids_def dest!: map_of_SomeD)

lemma transform_scalar: "\<not> is_dict v \<Longrightarrow> transform_field_value v t = Inr (JDict [(t, v)])"
  by (cases v) auto

lemma set_custom_Inr:
  "set_custom e v acc = Inr acc' \<Longrightarrow> \<exists>w. e = WireId w \<and> acc' = dict_set acc w v"
  by (cases e) auto

text \<open>A successful step leaves the fields as they are (the field is skipped) or sets one
  key: the field's own name or a wire id of the configuration.\<close>

lemma build_field_keys:
  assumes "build_field cfg http p ex g w acc tr = (Inr acc', tr')"
  shows "acc' = acc \<and> (g = ''issues'' \<or> g \<in> set ex \<or> g = ''issuelinks'')
         \<or> (\<exists>k x. acc' = dict_set acc k x \<and> g \<noteq> ''issues'' \<and> g \<noteq> ''issuelinks''
               \<and> (k = g \<or> k \<in> set (wire_ids cfg)))"
  using assms unfolding build_field_def
  by (auto split: if_splits sum.splits option.splits prod.splits cfm_entry.splits
           dest!: set_custom_Inr dest: wire_ids_top wire_ids_nested)

lemma build_field_other:
  assumes "build_field cfg http p ex g w acc tr = (Inr acc', tr')"
    and "g \<noteq> f" and "f \<notin> set (wire_ids cfg)"
  shows "map_of acc' f = map_of acc f"
  using build_field_keys [OF assms(1)] assms(2,3) by (auto simp: map_of_dict_set)

lemma build_loop_Cons_Inr:
  assumes "build_loop cfg http p ex ((g, w) # flds) acc tr = (Inr out, tr')"
  obtains acc1 tr1 where "build_field cfg http p ex g w acc tr = (Inr acc1, tr1)"
    and "build_loop cfg http p ex flds acc1 tr1 = (Inr out, tr')"
  using assms by (auto split: prod.splits sum.splits)

lemma build_loop_other:
  assumes "build_loop cfg http p ex flds acc tr = (Inr out, tr')"
    and "f \<notin> fst ` set flds" and "f \<notin> set (wire_ids cfg)"
  shows "map_of out f = map_of acc f"
  using assms(1,2)
proof (induction flds arbitrary: acc tr)
  case Nil
  then show ?case by simp
next
  case (Cons kv flds)
  obtain g w where kv: "kv = (g, w)" by (cases kv)
  from Cons.prems(1) kv obtain acc1 tr1 where
    step: "build_field cfg http p ex g w acc tr = (Inr acc1, tr1)"
    and rest: "build_loop cfg http p ex flds acc1 tr1 = (Inr out, tr')"
    by (auto split: prod.splits sum.splits)
  from Cons.prems(2) kv have "g \<noteq> f" and "f \<notin> fst ` set flds" by auto
  with Cons.IH [OF rest] build_field_other [OF step _ assms(3)] show ?case by simp
qed

lemma build_field_format:
  assumes "f \<noteq> ''issues''" "f \<notin> set ex" "f \<noteq> ''issuelinks''" "\<not> is_dict v"
  shows "f \<in> set (key_format_fields cfg) \<Longrightarrow>
           build_field cfg http p ex f v acc tr
             = (Inr (dict_set acc f (JDict [(''key'', v)])), tr)"
    and "f \<notin> set (key_format_fields cfg) \<Longrightarrow> f \<in> set (name_format_fields cfg) \<Longrightarrow>
           build_field cfg http p ex f v acc tr
             = (Inr (dict_set acc f (JDict [(''name'', v)])), tr)"
  using assms by (simp_all add: build_field_def transform_scalar)

text \<open>A field that the loop body stores under its own name is still there at the end,
  when no later field is written under that name.\<close>

lemma build_loop_sets:
  assumes "build_loop cfg http p ex flds acc tr = (Inr out, tr')"
    and "distinct (map fst flds)" and "(f, v) \<in> set flds"
    and "f \<notin> set (wire_ids cfg)"
    and "\<And>acc tr. build_field cfg http p ex f v acc tr = (Inr (dict_set acc f x), tr)"
  shows "map_of out f = Some x"
  using assms(1,2,3)
proof (induction flds arbitrary: acc tr)
  case Nil
  then show ?case by simp
next
  case (Cons kv flds)
  obtain g w where kv: "kv = (g, w)" by (cases kv)
  from Cons.prems(1) kv obtain acc1 tr1 where
    step: "build_field cfg http p ex g w acc tr = (Inr acc1, tr1)"
    and rest: "build_loop cfg http p ex flds acc1 tr1 = (Inr out, tr')"
    by (auto split: prod.splits sum.splits)
  show ?case
  proof (cases "kv = (f, v)")
    case True
    with kv step assms(5) have acc1: "acc1 = dict_set acc f x" by simp
    from True Cons.prems(2) have "f \<notin> fst ` set flds" by simp
    from build_loop_other [OF rest this assms(4)] acc1 show ?thesis
      by (simp add: map_of_dict_set)
  next
    case False
    with Cons.prems have "(f, v) \<in> set flds" and "distinct (map fst flds)" by auto
    from Cons.IH [OF rest this(2) this(1)] show ?thesis .
  qed
qed

section \<open>C2: a mapping as the value of a key-format field\<close>

text \<open>
  C2 says that a mapping value of a field in \<^verbatim>\<open>key_format_fields\<close> becomes a list with
  one object \<^verbatim>\<open>{entryKey: entryValue}\<close> per entry. The code iterates the mapping
  without \<^verbatim>\<open>.items()\<close>, so it unpacks each key string: for
  \<^verbatim>\<open>{'components': {'name': 'Backend'}}\<close> the translation raises ValueError, and for
  \<^verbatim>\<open>{'components': {'id': '10000'}}\<close> it yields \<^verbatim>\<open>[{'i': 'd'}]\<close>, made of the two
  characters of the key; the value of the entry is never read.
\<close>

theorem C2_mapping_value_unpacks_keys:
  "build_issue_data cfg_components http ''PROJ''
      [(''components'', JDict [(''name'', JStr ''Backend'')])] [] tr
     = (Inl (ValueError ''too many values to unpack''), tr)
   \<and> build_issue_data cfg_components http ''PROJ''
      [(''components'', JDict [(''id'', JStr ''10000'')])] [] tr
     = (Inr [(''components'', JList [JDict [(''i'', JStr ''d'')]])], tr)"
  by (simp add: build_issue_data_def build_field_def cfg_components_def)

section \<open>C5: scalar values of key-format and name-format fields\<close>

text \<open>
  C5, as amended: let the translation of a field map succeed, and let the map hold a
  field \<open>f\<close> with a scalar value \<open>v\<close>, where \<open>f\<close> is not \<^verbatim>\<open>issues\<close> or
  \<^verbatim>\<open>issuelinks\<close>, is not excluded, and is not a wire id that the configuration writes
  another field under. If \<open>f\<close> is in \<^verbatim>\<open>key_format_fields\<close>, the output maps \<open>f\<close> to
  \<^verbatim>\<open>{key: v}\<close>; if \<open>f\<close> is in \<^verbatim>\<open>name_format_fields\<close> and not in
  \<^verbatim>\<open>key_format_fields\<close>, the output maps \<open>f\<close> to \<^verbatim>\<open>{name: v}\<close>.
\<close>

theorem C5_scalar_wrapping:
  assumes "build_issue_data cfg http p flds ex tr = (Inr out, tr')"
    and "distinct (map fst flds)" and "(f, v) \<in> set flds" and "\<not> is_dict v"
    and "f \<noteq> ''issues''" and "f \<noteq> ''issuelinks''" and "f \<notin> set ex"
    and "f \<notin> set (wire_ids cfg)"
  shows "(f \<in> set (key_format_fields cfg) \<longrightarrow> map_of out f = Some (JDict [(''key'', v)]))
       \<and> (f \<in> set (name_format_fields cfg) \<and> f \<notin> set (key_format_fields cfg)
            \<longrightarrow> map_of out f = Some (JDict [(''name'', v)]))"
  using build_loop_sets [OF assms(1) [unfolded build_issue_data_def] assms(2,3,8)]
    build_field_format [OF assms(5,7,6,4)]
  by blast

text \<open>The theorem at a key-format field and at a name-format field of one input.\<close>

theorem C5_scalar_wrapping_witness:
  "build_issue_data cfg_components tracker_ok ''PROJ''
      [(''components'', JStr ''Backend''), (''priority'', JStr ''High'')] [] []
     = (Inr [(''components'', JDict [(''key'', JStr ''Backend'')]),
             (''priority'', JDict [(''name'', JStr ''High'')])], [])
   \<and> map_of [(''components'', JDict [(''key'', JStr ''Backend'')]),
              (''priority'', JDict [(''name'', JStr ''High'')])] ''components''
       = Some (JDict [(''key'', JStr ''Backend'')])
   \<and> map_of [(''components'', JDict [(''key'', JStr ''Backend'')]),
              (''priority'', JDict [(''name'', JStr ''High'')])] ''priority''
       = Some (JDict [(''name'', JStr ''High'')])"
proof -
  let ?flds = "[(''components'', JStr ''Backend''), (''priority'', JStr ''High'')]"
  let ?out = "[(''components'', JDict [(''key'', JStr ''Backend'')]),
               (''priority'', JDict [(''name'', JStr ''High'')])]"
  have run: "build_issue_data cfg_components tracker_ok ''PROJ'' ?flds [] [] = (Inr ?out, [])"
    by (simp add: build_issue_data_def build_field_def cfg_components_def)
  have "map_of ?out ''components'' = Some (JDict [(''key'', JStr ''Backend'')])"
    using C5_scalar_wrapping [OF run, of "''components''" "JStr ''Backend''"]
    by (simp add: cfg_components_def wire_ids_def)
  moreover have "map_of ?out ''priority'' = Some (JDict [(''name'', JStr ''High'')])"
    using C5_scalar_wrapping [OF run, of "''priority''" "JStr ''High''"]
    by (simp add: cfg_components_def wire_ids_def)
  ultimately show ?thesis using run by simp
qed

text \<open>C5 as stated fails where a field is in both tables: \<^verbatim>\<open>key_format_fields\<close> is
  tested first (line 288), so the field gets the \<^verbatim>\<open>key\<close> form.\<close>

theorem C5_counterexample:
  "''priority'' \<in> set (name_format_fields cfg_overlap)
   \<and> build_issue_data cfg_overlap tracker_ok ''PROJ'' [(''priority'', JStr ''High'')] [] []
       = (Inr [(''priority'', JDict [(''key'', JStr ''High'')])], [])"
  by (simp add: build_issue_data_def build_field_def cfg_overlap_def)

section \<open>C10: the nested mappings of the custom field mapping\<close>

lemma build_field_lacks_nested:
  assumes "falls_through cfg ex f" and "lacks_nested cfg f"
  shows "\<exists>k. (k = ''key_format_fields'' \<or> k = ''name_format_fields'')
             \<and> build_field cfg http p ex f v acc tr = (Inl (KeyError k), tr)"
  using assms
  by (auto simp: falls_through_def lacks_nested_def build_field_def
           split: option.splits cfm_entry.splits)

lemma build_loop_lacks_nested:
  assumes "falls_through cfg ex f" and "lacks_nested cfg f" and "(f, v) \<in> set flds"
  shows "\<exists>e. fst (build_loop cfg http p ex flds acc tr) = Inl e"
  using assms(3)
proof (induction flds arbitrary: acc tr)
  case Nil
  then show ?case by simp
next
  case (Cons kv flds)
  obtain g w where kv: "kv = (g, w)" by (cases kv)
  show ?case
  proof (cases "build_field cfg http p ex g w acc tr")
    case (Pair r tr')
    show ?thesis
    proof (cases r)
      case (Inl e)
      with Pair kv show ?thesis by simp
    next
      case (Inr acc')
      have "kv \<noteq> (f, v)"
        using build_field_lacks_nested [OF assms(1,2), of http p v acc tr] Pair Inr kv
        by auto
      with Cons.prems have "(f, v) \<in> set flds" by simp
      from Cons.IH [OF this] Pair Inr kv show ?thesis by simp
    qed
  qed
qed

text \<open>
  C10: let a field name match none of the tests before line 307 (it is not \<^verbatim>\<open>issues\<close>,
  not excluded, not \<^verbatim>\<open>issuelinks\<close>, in neither format table and not a key of the custom
  field mapping), and let the custom field mapping lack \<^verbatim>\<open>key_format_fields\<close>, or hold
  it without the field and lack \<^verbatim>\<open>name_format_fields\<close>. Then the step for the field
  raises KeyError for the missing mapping, a translation that starts with the field raises
  that KeyError, and a translation of any field map that holds the field fails: the field
  is never copied.
\<close>

theorem C10_missing_nested_mapping:
  assumes "falls_through cfg exclude_fields field_name" and "lacks_nested cfg field_name"
  shows "(\<exists>k. (k = ''key_format_fields'' \<or> k = ''name_format_fields'')
            \<and> build_field cfg http p exclude_fields field_name field_value acc tr
                 = (Inl (KeyError k), tr)
            \<and> build_issue_data cfg http p ((field_name, field_value) # rest) exclude_fields tr
                 = (Inl (KeyError k), tr))
       \<and> ((field_name, field_value) \<in> set flds
            \<longrightarrow> (\<exists>e. fst (build_issue_data cfg http p flds exclude_fields tr) = Inl e))"
proof -
  from build_field_lacks_nested [OF assms, of http p field_value]
  have step: "\<exists>k. (k = ''key_format_fields'' \<or> k = ''name_format_fields'')
            \<and> (\<forall>acc tr. build_field cfg http p exclude_fields field_name field_value acc tr
                 = (Inl (KeyError k), tr))"
    using assms
    by (auto simp: falls_through_def lacks_nested_def build_field_def
             split: option.splits cfm_entry.splits)
  then show ?thesis
    using build_loop_lacks_nested [OF assms, of field_value flds http p "[]" tr]
    by (auto simp: build_issue_data_def)
qed

text \<open>With the default configuration (no custom field mapping at all) a plain field
  such as \<^verbatim>\<open>summary\<close> cannot be translated.\<close>

theorem C10_missing_nested_mapping_witness:
  "falls_through cfg_default [] ''summary'' \<and> lacks_nested cfg_default ''summary''
   \<and> build_issue_data cfg_default tracker_ok ''PROJ'' [(''summary'', JStr ''S'')] [] []
       = (Inl (KeyError ''key_format_fields''), [])"
proof -
  have ft: "falls_through cfg_default [] ''summary''"
    by (simp add: falls_through_def cfg_default_def)
  have ln: "lacks_nested cfg_default ''summary''"
    by (simp add: lacks_nested_def cfg_default_def)
  from C10_missing_nested_mapping [OF ft ln, of tracker_ok "''PROJ''" "JStr ''S''" "[]" "[]" "[]"]
  obtain k where "build_issue_data cfg_default tracker_ok ''PROJ'' [(''summary'', JStr ''S'')] [] []
       = (Inl (KeyError k), [])"
    by blast
  moreover have "fst (build_issue_data cfg_default tracker_ok ''PROJ''
      [(''summary'', JStr ''S'')] [] []) = Inl (KeyError ''key_format_fields'')"
    by (simp add: build_issue_data_def build_field_def cfg_default_def)
  ultimately show ?thesis using ft ln by simp
qed

section \<open>C7: sprint lookup\<close>

lemma find_sprint_none:
  assumes "list_all sprint_wf ss" and "\<not> (\<exists>s \<in> set ss. sprint_named n s)"
  shows "find_sprint ss (JStr n) = Inr JNull"
  using assms
  by (induction ss)
     (auto simp: sprint_wf_def sprint_named_def py_eq_JStr split: jval.splits)

lemma find_sprint_some:
  assumes "list_all sprint_wf ss" and "\<exists>s \<in> set ss. sprint_named n s"
  shows "\<exists>s i. s \<in> set ss \<and> sprint_named n s \<and> py_getitem s ''id'' = Inr i
               \<and> find_sprint ss (JStr n) = Inr i"
  using assms
proof (induction ss)
  case Nil
  then show ?case by simp
next
  case (Cons s ss)
  from Cons.prems(1) obtain d nm i where s: "s = JDict d" "map_of d ''name'' = Some nm"
    "map_of d ''id'' = Some i"
    by (auto simp: sprint_wf_def split: jval.splits)
  show ?case
  proof (cases "nm = JStr n")
    case True
    with s show ?thesis by (auto simp: sprint_named_def py_eq_JStr)
  next
    case False
    with s have "\<not> sprint_named n s" by (simp add: sprint_named_def)
    with Cons.prems have "\<exists>s \<in> set ss. sprint_named n s" and "list_all sprint_wf ss" by auto
    from Cons.IH [OF this(2) this(1)] s False show ?thesis by (auto simp: py_eq_JStr)
  qed
qed

text \<open>
  C7: let the tracker answer the request for the sprints of a board with a 2xx status and
  a JSON object whose \<^verbatim>\<open>values\<close> is a list of sprints, each an object with a name and
  an id. If a sprint of the list has exactly the requested name, \<^verbatim>\<open>get_sprint_id\<close>
  returns the id of a sprint with that name; if none has, it returns \<^verbatim>\<open>None\<close> and
  raises nothing. Names are compared as strings, so case matters.
\<close>

theorem C7_sprint_lookup:
  assumes "http tr \<lparr>meth = ''get'', url = Sprints board_id, payload = None\<rparr> = Response r"
    and "200 \<le> status_code r" and "status_code r < 300"
    and "json_body r = Some (JDict body)" and "resp_text r \<noteq> []"
    and "map_of body ''values'' = Some (JList sprints)"
    and "list_all sprint_wf sprints"
  shows "((\<exists>s \<in> set sprints. sprint_named n s) \<longrightarrow>
            (\<exists>s i. s \<in> set sprints \<and> sprint_named n s \<and> py_getitem s ''id'' = Inr i
                 \<and> fst (get_sprint_id http board_id (JStr n) tr) = Inr i))
       \<and> (\<not> (\<exists>s \<in> set sprints. sprint_named n s) \<longrightarrow>
            fst (get_sprint_id http board_id (JStr n) tr) = Inr JNull)"
proof -
  have "get_sprint_id http board_id (JStr n) tr
          = (find_sprint sprints (JStr n),
             tr @ [\<lparr>meth = ''get'', url = Sprints board_id, payload = None\<rparr>])"
    using assms(1-6) by (simp add: get_sprint_id_def send_request_def request_url_def)
  then show ?thesis
    using find_sprint_some [OF assms(7), of n] find_sprint_none [OF assms(7), of n]
    by auto
qed

text \<open>The example of the spec: a board with the one sprint \<^verbatim>\<open>Sprint 1\<close> of id
  \<^verbatim>\<open>10\<close>.\<close>

theorem C7_sprint_lookup_witness:
  "fst (get_sprint_id tracker_sprints (JStr ''7'') (JStr ''Sprint 1'') []) = Inr (JStr ''10'')
   \<and> fst (get_sprint_id tracker_sprints (JStr ''7'') (JStr ''Sprint 9'') []) = Inr JNull
   \<and> fst (get_sprint_id tracker_sprints (JStr ''7'') (JStr ''sprint 1'') []) = Inr JNull"
proof -
  let ?sprints = "[JDict [(''name'', JStr ''Sprint 1''), (''id'', JStr ''10'')]]"
  let ?r = "\<lparr>status_code = 200, resp_text = ''{...}'',
             json_body = Some (JDict [(''values'', JList ?sprints)])\<rparr>"
  have h: "tracker_sprints [] \<lparr>meth = ''get'', url = Sprints (JStr ''7''), payload = None\<rparr>
             = Response ?r"
    by (simp add: tracker_sprints_def)
  have wf: "list_all sprint_wf ?sprints" by (simp add: sprint_wf_def)
  note t = C7_sprint_lookup [where http = tracker_sprints and tr = "[]"
      and board_id = "JStr ''7''" and r = ?r and body = "[(''values'', JList ?sprints)]"
      and sprints = ?sprints]
  show ?thesis
    using t [of "''Sprint 1''"] t [of "''Sprint 9''"] t [of "''sprint 1''"] h wf
    by (simp add: sprint_named_def)
qed

section \<open>C9: a 2xx response with an empty body\<close>

text \<open>
  C9 says that a 2xx response with an empty body gives an empty or absent result, and no
  parse error. For a request with one of the three methods and such a response,
  \<^verbatim>\<open>send_request\<close> indeed does not parse the body and raises nothing; but what it
  returns is the response object itself (lines 142-145), where its signature and docstring
  (lines 84, 95-96) announce the parsed response, a dictionary.
\<close>

theorem C9_empty_body_returns_response:
  assumes "lower method \<in> set [''post'', ''put'', ''get'']"
    and "http tr \<lparr>meth = lower method,
                  url = request_url api_type custom_url issue_key method,
                  payload = jira_request_data\<rparr> = Response r"
    and "200 \<le> status_code r" and "status_code r < 300" and "resp_text r = []"
  shows "send_request http api_type custom_url issue_key jira_request_data method tr
           = (Inr (Raw r),
              tr @ [\<lparr>meth = lower method,
                      url = request_url api_type custom_url issue_key method,
                      payload = jira_request_data\<rparr>])"
  using assms by (simp add: send_request_def)

text \<open>The theorem at a link request that the tracker answers by 204 with no content.\<close>

theorem C9_empty_body_returns_response_witness:
  "send_request tracker_no_content (Some ''issueLink'') None JNull (Some (JDict [])) ''post'' []
     = (Inr (Raw \<lparr>status_code = 204, resp_text = [], json_body = None\<rparr>),
        [\<lparr>meth = ''post'', url = Api (Some ''issueLink''), payload = Some (JDict [])\<rparr>])"
  using C9_empty_body_returns_response [of "''post''" tracker_no_content "[]"
      "Some ''issueLink''" None JNull "Some (JDict [])"
      "\<lparr>status_code = 204, resp_text = [], json_body = None\<rparr>"]
  by (simp add: tracker_no_content_def request_url_def)

text \<open>An update answered by 204 with no content returns the response object of the
  transport; and a caller that subscripts the result fails on it: when the creation
  request is answered by 204 with no content, \<^verbatim>\<open>response_data['key']\<close> (line 373)
  raises TypeError.\<close>

lemma send_request_update_no_content:
  "send_request tracker_no_content (Some ''issue'') None (JStr ''K-1'')
      (Some (JDict [(''fields'', JDict [])])) ''put'' []
     = (Inr (Raw \<lparr>status_code = 204, resp_text = [], json_body = None\<rparr>),
        [\<lparr>meth = ''put'', url = ApiKey (Some ''issue'') (JStr ''K-1''),
          payload = Some (JDict [(''fields'', JDict [])])\<rparr>])"
  by (simp add: send_request_def request_url_def tracker_no_content_def)

lemma create_new_jira_issue_no_content:
  "create_new_jira_issue cfg_components tracker_no_content ''PROJ''
      [(''summary'', JStr ''T1''), (''issuetype'', JStr ''Task'')] JNull JNull []
     = (Inl TypeError,
        [creation_request [(''summary'', JStr ''T1''), (''issuetype'', JStr ''Task''),
                           (''project'', JDict [(''key'', JStr ''PROJ'')])]])"
  by (simp add: run_defs cfg_components_def tracker_no_content_def creation_request_def)

section \<open>C8: a creation response without a key\<close>

text \<open>
  C8 says that a 2xx creation response without an issue key makes the creation fail with
  the error of line 377 (the ValueError "Failed to retrieve issue key"). The code reads
  \<^verbatim>\<open>response_data['key']\<close> (line 373) before that test, so a body without the key
  raises KeyError there; the ValueError is reached only for a key that is present and
  empty. The walk is aborted either way: after the epic's creation request nothing more
  is sent.
\<close>

theorem C8_response_without_key_raises_KeyError:
  "create_epics_and_issues cfg_components tracker_no_key ''PROJ'' [epic_with_task] []
     = (Inl (KeyError ''key''),
        [\<lparr>meth = ''post'', url = Api (Some ''issue''),
          payload = Some (JDict [(''fields'',
             JDict [(''epicName'', JStr ''E1''), (''summary'', JStr ''E1''),
                    (''issuetype'', JStr ''Epic''),
                    (''project'', JDict [(''key'', JStr ''PROJ'')])])])\<rparr>])"
  by (simp add: run_defs cfg_components_def tracker_no_key_def epic_with_task_def
        epic_fields_def)

section \<open>C1: the entries of issuelinks\<close>

text \<open>
  C1 says that every entry of \<^verbatim>\<open>issuelinks\<close> is linked. The call of
  \<^verbatim>\<open>link_jira_issues\<close> (line 400) stands after the loop, not in it: for an issue with
  two entries the handler sends the creation request and then one link request, for the
  last entry; the first entry (\<^verbatim>\<open>Blocks\<close>, \<^verbatim>\<open>A-1\<close>) is never linked.
\<close>

theorem C1_only_last_issuelink_is_linked:
  "create_new_jira_issue cfg_components tracker_ok ''PROJ'' issue_two_links JNull JNull []
     = (Inr (Parsed (JDict [(''key'', JStr ''K-1'')])),
        [\<lparr>meth = ''post'', url = Api (Some ''issue''),
          payload = Some (JDict [(''fields'',
             JDict [(''summary'', JStr ''T1''), (''issuetype'', JStr ''Task''),
                    (''project'', JDict [(''key'', JStr ''PROJ'')])])])\<rparr>,
         \<lparr>meth = ''post'', url = Api (Some ''issueLink''),
          payload = Some (JDict [(''type'', JDict [(''name'', JStr ''Relates'')]),
                                 (''inwardIssue'', JDict [(''key'', JStr ''K-1'')]),
                                 (''outwardIssue'', JDict [(''key'', JStr ''B-2'')])])\<rparr>])"
  by (simp add: run_defs cfg_components_def tracker_ok_def issue_two_links_def)

section \<open>The requests of each operation\<close>

lemma is_link_link_request [simp]: "is_link (link_request a b c)"
  unfolding is_link_def by blast

lemma send_request_get:
  assumes "send_request http a c k None ''get'' tr = (res, tr')"
  shows "\<exists>new. tr' = tr @ new \<and> list_all is_get new"
  using assms
  by (auto simp: send_request_def Let_def is_get_def
           split: http_outcome.splits if_splits option.splits)

lemma get_project_id_by_key_trace:
  assumes "get_project_id_by_key http k tr = (res, tr')"
  shows "\<exists>new. tr' = tr @ new \<and> list_all is_get new"
  using assms unfolding get_project_id_by_key_def
  by (auto split: prod.splits sum.splits dest: send_request_get)

lemma get_board_id_trace:
  assumes "get_board_id_by_project_key http k tr = (res, tr')"
  shows "\<exists>new. tr' = tr @ new \<and> list_all is_get new"
proof (cases "get_project_id_by_key http k tr")
  case (Pair r1 tr1)
  from get_project_id_by_key_trace [OF Pair] obtain n1 where
    n1: "tr1 = tr @ n1" "list_all is_get n1" by blast
  show ?thesis
  proof (cases r1)
    case (Inl e)
    with Pair assms n1 show ?thesis by (auto simp: get_board_id_by_project_key_def)
  next
    case (Inr pid)
    obtain r2 tr2 where s: "send_request http None (Some (Boards pid)) JNull None ''get'' tr1 = (r2, tr2)"
      by (cases "send_request http None (Some (Boards pid)) JNull None ''get'' tr1")
    from send_request_get [OF s] obtain n2 where n2: "tr2 = tr1 @ n2" "list_all is_get n2" by blast
    from assms Pair Inr s have "tr' = tr2"
      by (auto simp: get_board_id_by_project_key_def split: sum.splits list.splits)
    with n1 n2 show ?thesis by auto
  qed
qed

lemma get_sprint_id_trace:
  assumes "get_sprint_id http b n tr = (res, tr')"
  shows "\<exists>new. tr' = tr @ new \<and> list_all is_get new"
  using assms unfolding get_sprint_id_def
  by (auto split: prod.splits sum.splits dest: send_request_get)

lemma build_field_trace:
  assumes "build_field cfg http p ex g w acc tr = (res, tr')"
  shows "\<exists>new. tr' = tr @ new \<and> list_all is_get new"
proof (cases "g = ''sprint'' \<and> g \<notin> set ex
              \<and> g \<notin> set (key_format_fields cfg) \<and> g \<notin> set (name_format_fields cfg)
              \<and> map_of (custom_field_mapping cfg) g \<noteq> None")
  case False
  with assms have "tr' = tr"
    unfolding build_field_def
    by (auto split: if_splits sum.splits option.splits cfm_entry.splits)
  then show ?thesis by simp
next
  case True
  then obtain cn where cn: "map_of (custom_field_mapping cfg) g = Some cn" by auto
  obtain r1 tr1 where b: "get_board_id_by_project_key http p tr = (r1, tr1)"
    by (cases "get_board_id_by_project_key http p tr")
  from get_board_id_trace [OF b] obtain n1 where n1: "tr1 = tr @ n1" "list_all is_get n1"
    by blast
  show ?thesis
  proof (cases r1)
    case (Inl e)
    with assms True cn b n1 show ?thesis by (auto simp: build_field_def)
  next
    case (Inr bid)
    obtain r2 tr2 where s: "get_sprint_id http bid w tr1 = (r2, tr2)"
      by (cases "get_sprint_id http bid w tr1")
    from get_sprint_id_trace [OF s] obtain n2 where n2: "tr2 = tr1 @ n2" "list_all is_get n2"
      by blast
    from assms True cn b Inr s have "tr' = tr2"
      by (auto simp: build_field_def split: sum.splits)
    with n1 n2 show ?thesis by auto
  qed
qed

lemma build_loop_trace:
  assumes "build_loop cfg http p ex flds acc tr = (res, tr')"
  shows "\<exists>new. tr' = tr @ new \<and> list_all is_get new"
  using assms
proof (induction flds arbitrary: acc tr)
  case Nil
  then show ?case by simp
next
  case (Cons kv flds)
  obtain g w where kv: "kv = (g, w)" by (cases kv)
  obtain r1 tr1 where s: "build_field cfg http p ex g w acc tr = (r1, tr1)"
    by (cases "build_field cfg http p ex g w acc tr")
  from build_field_trace [OF s] obtain n1 where n1: "tr1 = tr @ n1" "list_all is_get n1"
    by blast
  show ?case
  proof (cases r1)
    case (Inl e)
    with Cons.prems kv s n1 show ?thesis by auto
  next
    case (Inr acc1)
    with Cons.prems kv s have "build_loop cfg http p ex flds acc1 tr1 = (res, tr')" by simp
    from Cons.IH [OF this] n1 show ?thesis by auto
  qed
qed

lemma build_issue_data_trace:
  assumes "build_issue_data cfg http p flds ex tr = (res, tr')"
  shows "\<exists>new. tr' = tr @ new \<and> list_all is_get new"
  using assms build_loop_trace unfolding build_issue_data_def by blast

lemma send_request_valid:
  assumes "send_request http a c k d m tr = (res, tr')"
    and "lower m \<in> set [''post'', ''put'', ''get'']"
  shows "tr' = tr @ [\<lparr>meth = lower m, url = request_url a c k m, payload = d\<rparr>]"
  using assms
  by (auto simp: send_request_def Let_def split: http_outcome.splits if_splits option.splits)

lemma send_update_trace:
  assumes "send_update http k U tr = (res, tr')" and "truthy k"
  shows "tr' = tr @ (if U \<noteq> [] then [update_request k U] else [])"
  using assms unfolding send_update_def
  by (auto split: if_splits prod.splits sum.splits dest!: send_request_valid
           simp: update_request_def request_url_def)

lemma link_jira_issues_trace:
  assumes "link_jira_issues http a b c tr = (res, tr')"
  shows "tr' = tr @ [link_request a b c]"
  using assms unfolding link_jira_issues_def
  by (auto dest!: send_request_valid simp: link_request_def request_url_def)

lemma link_issuelinks_trace:
  assumes "link_issuelinks http issue k tr = (res, tr')"
  shows "\<exists>links. tr' = tr @ links \<and> list_all is_link links"
  using assms unfolding link_issuelinks_def
  by (auto split: option.splits prod.splits sum.splits
           dest!: link_jira_issues_trace)


lemma update_and_link_trace:
  assumes "update_and_link cfg http p issue response_data tr = (res, tr')"
  shows "\<exists>g2 upd links. tr' = tr @ g2 @ upd @ links
           \<and> list_all is_get g2 \<and> list_all is_link links
           \<and> (upd = [] \<or>
                (\<exists>k U. build_issue_data cfg http p issue
                          (fields_set_during_issue_creation cfg issue) tr = (Inr U, tr @ g2)
                       \<and> upd = [update_request k U]))
           \<and> (\<forall>resp. res = Inr resp \<longrightarrow>
                (\<exists>k U. result_getitem resp ''key'' = Inr k \<and> truthy k
                       \<and> build_issue_data cfg http p issue
                            (fields_set_during_issue_creation cfg issue) tr = (Inr U, tr @ g2)
                       \<and> upd = (if U \<noteq> [] then [update_request k U] else [])))"
    (is "\<exists>g2 upd links. ?Q g2 upd links")
proof -
  have early: "?Q [] [] []" if "tr' = tr" "\<exists>e. res = Inl e"
    using that by auto
  show ?thesis
  proof (cases "result_getitem response_data ''key''")
    case (Inl e)
    with assms have "tr' = tr" "\<exists>e. res = Inl e" by (auto simp: update_and_link_def)
    from early [OF this] show ?thesis by blast
  next
    case k: (Inr k)
    show ?thesis
    proof (cases "truthy k")
      case False
      with assms k have "tr' = tr" "\<exists>e. res = Inl e" by (auto simp: update_and_link_def)
      from early [OF this] show ?thesis by blast
    next
      case True
      obtain r3 tr3 where b: "build_issue_data cfg http p issue
          (fields_set_during_issue_creation cfg issue) tr = (r3, tr3)"
        by (cases "build_issue_data cfg http p issue
              (fields_set_during_issue_creation cfg issue) tr")
      from build_issue_data_trace [OF b] obtain g2 where
        g2: "tr3 = tr @ g2" "list_all is_get g2" by blast
      show ?thesis
      proof (cases r3)
        case (Inl e)
        with assms k True b have "res = Inl e" "tr' = tr3" by (simp_all add: update_and_link_def)
        with g2 have "?Q g2 [] []" by auto
        then show ?thesis by blast
      next
        case U: (Inr U)
        let ?upd = "if U \<noteq> [] then [update_request k U] else []"
        obtain r4 tr4 where u: "send_update http k U tr3 = (r4, tr4)"
          by (cases "send_update http k U tr3")
        from send_update_trace [OF u True] have tr4: "tr4 = tr3 @ ?upd" .
        from b U g2 have bU: "build_issue_data cfg http p issue
            (fields_set_during_issue_creation cfg issue) tr = (Inr U, tr @ g2)" by simp
        show ?thesis
        proof (cases r4)
          case (Inl e)
          with assms k True b U u have "res = Inl e" "tr' = tr4"
            by (simp_all add: update_and_link_def)
          with g2 tr4 bU have "?Q g2 ?upd []" by auto
          then show ?thesis by blast
        next
          case (Inr u4)
          obtain r5 tr5 where l: "link_issuelinks http issue k tr4 = (r5, tr5)"
            by (cases "link_issuelinks http issue k tr4")
          from link_issuelinks_trace [OF l] obtain links where
            links: "tr5 = tr4 @ links" "list_all is_link links" by blast
          from assms k True b U u Inr l
          have res: "tr' = tr5" "\<forall>resp. res = Inr resp \<longrightarrow> resp = response_data"
            by (auto simp: update_and_link_def split: sum.splits)
          with g2 tr4 bU links k True have "?Q g2 ?upd links" by auto
          then show ?thesis by blast
        qed
      qed
    qed
  qed
qed

lemma create_new_jira_issue_trace:
  assumes "create_new_jira_issue cfg http p issue ek pk tr = (res, tr')"
  shows "\<exists>g1. list_all is_get g1 \<and>
     ((\<exists>e. res = Inl e) \<and> tr' = tr @ g1
      \<or> (\<exists>F F' g2 upd links.
            build_issue_data cfg http p issue (post_creation_update_fields cfg) tr
              = (Inr F, tr @ g1)
          \<and> set_project_and_parent cfg p issue ek pk F = Inr F'
          \<and> tr' = (tr @ g1 @ [creation_request F']) @ g2 @ upd @ links
          \<and> list_all is_get g2 \<and> list_all is_link links
          \<and> (upd = [] \<or>
               (\<exists>k U. build_issue_data cfg http p issue
                         (fields_set_during_issue_creation cfg issue)
                         (tr @ g1 @ [creation_request F'])
                        = (Inr U, (tr @ g1 @ [creation_request F']) @ g2)
                      \<and> upd = [update_request k U]))
          \<and> (\<forall>resp. res = Inr resp \<longrightarrow>
               (\<exists>k U. result_getitem resp ''key'' = Inr k \<and> truthy k
                      \<and> build_issue_data cfg http p issue
                           (fields_set_during_issue_creation cfg issue)
                           (tr @ g1 @ [creation_request F'])
                          = (Inr U, (tr @ g1 @ [creation_request F']) @ g2)
                      \<and> upd = (if U \<noteq> [] then [update_request k U] else [])))))"
proof -
  obtain r1 tr1 where b: "build_issue_data cfg http p issue (post_creation_update_fields cfg) tr
      = (r1, tr1)"
    by (cases "build_issue_data cfg http p issue (post_creation_update_fields cfg) tr")
  from build_issue_data_trace [OF b] obtain g1 where g1: "tr1 = tr @ g1" "list_all is_get g1"
    by blast
  show ?thesis
  proof (cases r1)
    case (Inl e)
    with assms b have "res = Inl e" "tr' = tr1" by (simp_all add: create_new_jira_issue_def)
    with g1 show ?thesis by auto
  next
    case F: (Inr F)
    with b g1 have bF: "build_issue_data cfg http p issue (post_creation_update_fields cfg) tr
      = (Inr F, tr @ g1)" by simp
    show ?thesis
    proof (cases "set_project_and_parent cfg p issue ek pk F")
      case (Inl e)
      with assms b F have "res = Inl e" "tr' = tr1" by (simp_all add: create_new_jira_issue_def)
      with g1 show ?thesis by auto
    next
      case F': (Inr F')
      obtain r2 tr2 where s: "send_request http (Some ''issue'') None JNull
          (Some (issue_data F')) ''post'' tr1 = (r2, tr2)"
        by (cases "send_request http (Some ''issue'') None JNull
              (Some (issue_data F')) ''post'' tr1")
      from send_request_valid [OF s] g1 have tr2: "tr2 = tr @ g1 @ [creation_request F']"
        by (simp add: creation_request_def request_url_def)
      show ?thesis
      proof (cases r2)
        case (Inl e)
        with assms b F F' s tr2 have "res = Inl e"
          "tr' = (tr @ g1 @ [creation_request F']) @ [] @ [] @ []"
          by (simp_all add: create_new_jira_issue_def)
        then have "\<exists>g2 upd links. tr' = (tr @ g1 @ [creation_request F']) @ g2 @ upd @ links
          \<and> list_all is_get g2 \<and> list_all is_link links
          \<and> (upd = [] \<or>
               (\<exists>k U. build_issue_data cfg http p issue
                         (fields_set_during_issue_creation cfg issue)
                         (tr @ g1 @ [creation_request F'])
                        = (Inr U, (tr @ g1 @ [creation_request F']) @ g2)
                      \<and> upd = [update_request k U]))
          \<and> (\<forall>resp. res = Inr resp \<longrightarrow>
               (\<exists>k U. result_getitem resp ''key'' = Inr k \<and> truthy k
                      \<and> build_issue_data cfg http p issue
                           (fields_set_during_issue_creation cfg issue)
                           (tr @ g1 @ [creation_request F'])
                          = (Inr U, (tr @ g1 @ [creation_request F']) @ g2)
                      \<and> upd = (if U \<noteq> [] then [update_request k U] else [])))"
          by (intro exI [where x = "[]"]) simp
        with g1(2) bF F' show ?thesis by blast
      next
        case (Inr response_data)
        with assms b F F' s have "update_and_link cfg http p issue response_data tr2 = (res, tr')"
          by (simp add: create_new_jira_issue_def)
        from update_and_link_trace [OF this, unfolded tr2] g1(2) bF F' show ?thesis by blast
      qed
    qed
  qed
qed

section \<open>The requests of a walk\<close>

lemma not_creation [simp]:
  "is_get r \<Longrightarrow> \<not> is_creation r"
  "is_link r \<Longrightarrow> \<not> is_creation r"
  "\<not> is_creation (update_request k U)"
  "is_creation (creation_request F)"
  by (auto simp: is_get_def is_link_def is_creation_def link_request_def update_request_def
        creation_request_def)

lemma filter_not_creation:
  "list_all is_get xs \<Longrightarrow> filter is_creation xs = []"
  "list_all is_link xs \<Longrightarrow> filter is_creation xs = []"
  by (induction xs) auto

lemma list_all_issue_request:
  "list_all is_get xs \<Longrightarrow> list_all (issue_request cfg http p) xs"
  "list_all is_link xs \<Longrightarrow> list_all (issue_request cfg http p) xs"
  by (induction xs) (auto simp: issue_request_def)

lemma create_new_jira_issue_node_done:
  assumes "create_new_jira_issue cfg http p issue ek pk tr = (res, tr')"
  shows "node_done cfg http p (JDict issue) tr (\<not> isl res) tr'"
proof -
  from create_new_jira_issue_trace [OF assms] obtain g1 where g1: "list_all is_get g1"
    and c: "(\<exists>e. res = Inl e) \<and> tr' = tr @ g1
      \<or> (\<exists>F F' g2 upd links.
            build_issue_data cfg http p issue (post_creation_update_fields cfg) tr
              = (Inr F, tr @ g1)
          \<and> set_project_and_parent cfg p issue ek pk F = Inr F'
          \<and> tr' = (tr @ g1 @ [creation_request F']) @ g2 @ upd @ links
          \<and> list_all is_get g2 \<and> list_all is_link links
          \<and> (upd = [] \<or>
               (\<exists>k U. build_issue_data cfg http p issue
                         (fields_set_during_issue_creation cfg issue)
                         (tr @ g1 @ [creation_request F'])
                        = (Inr U, (tr @ g1 @ [creation_request F']) @ g2)
                      \<and> upd = [update_request k U])))"
    by blast
  from c show ?thesis
  proof
    assume "(\<exists>e. res = Inl e) \<and> tr' = tr @ g1"
    with g1 show ?thesis
      unfolding node_done_def
      by (intro exI [where x = g1])
         (auto simp: filter_not_creation list_all_issue_request)
  next
    assume "\<exists>F F' g2 upd links.
            build_issue_data cfg http p issue (post_creation_update_fields cfg) tr
              = (Inr F, tr @ g1)
          \<and> set_project_and_parent cfg p issue ek pk F = Inr F'
          \<and> tr' = (tr @ g1 @ [creation_request F']) @ g2 @ upd @ links
          \<and> list_all is_get g2 \<and> list_all is_link links
          \<and> (upd = [] \<or>
               (\<exists>k U. build_issue_data cfg http p issue
                         (fields_set_during_issue_creation cfg issue)
                         (tr @ g1 @ [creation_request F'])
                        = (Inr U, (tr @ g1 @ [creation_request F']) @ g2)
                      \<and> upd = [update_request k U]))"
    then obtain F F' g2 upd links where
      b: "build_issue_data cfg http p issue (post_creation_update_fields cfg) tr
              = (Inr F, tr @ g1)"
      and f: "set_project_and_parent cfg p issue ek pk F = Inr F'"
      and t: "tr' = (tr @ g1 @ [creation_request F']) @ g2 @ upd @ links"
      and g2: "list_all is_get g2" and links: "list_all is_link links"
      and upd: "upd = [] \<or>
               (\<exists>k U. build_issue_data cfg http p issue
                         (fields_set_during_issue_creation cfg issue)
                         (tr @ g1 @ [creation_request F'])
                        = (Inr U, (tr @ g1 @ [creation_request F']) @ g2)
                      \<and> upd = [update_request k U])"
      by blast
    have cr: "creates cfg http p (JDict issue) (creation_request F')"
      unfolding creates_def using b f by blast
    have u1: "list_all (issue_request cfg http p) upd"
    proof (cases "upd = []")
      case True
      then show ?thesis by simp
    next
      case False
      with upd obtain k U where "build_issue_data cfg http p issue
            (fields_set_during_issue_creation cfg issue) (tr @ g1 @ [creation_request F'])
          = (Inr U, (tr @ g1 @ [creation_request F']) @ g2)"
        and u: "upd = [update_request k U]"
        by blast
      then have "updates cfg http p (update_request k U)"
        unfolding updates_def by blast
      with u show ?thesis by (simp add: issue_request_def)
    qed
    from upd have u2: "filter is_creation upd = []" by auto
    let ?new = "g1 @ [creation_request F'] @ g2 @ upd @ links"
    have "tr' = tr @ ?new" using t by simp
    moreover have "list_all (issue_request cfg http p) ?new"
      using g1 g2 links u1 cr
      by (auto simp: list_all_issue_request) (auto simp: issue_request_def)
    moreover have "filter is_creation ?new = [creation_request F']"
      using g1 g2 links u2 by (simp add: filter_not_creation)
    ultimately show ?thesis
      unfolding node_done_def using cr by blast
  qed
qed

lemma walked_Nil: "walked cfg http p [] tr ok tr"
  unfolding walked_def by (intro exI [where x = "[]"]) simp

lemma walked_fail:
  assumes "node_done cfg http p x tr b tr2"
  shows "walked cfg http p (x # rest) tr False tr2"
proof -
  from assms obtain new where new: "tr2 = tr @ new" "list_all (issue_request cfg http p) new"
    and c: "filter is_creation new = []
            \<or> (\<exists>r. filter is_creation new = [r] \<and> creates cfg http p x r)"
    unfolding node_done_def by blast
  from c show ?thesis
  proof
    assume "filter is_creation new = []"
    with new have "tr2 = tr @ new \<and> list_all (issue_request cfg http p) new
        \<and> preorder (x # rest) = [] @ preorder (x # rest)
        \<and> list_all2 (creates cfg http p) [] (filter is_creation new)
        \<and> (False \<longrightarrow> preorder (x # rest) = [])"
      by simp
    then show ?thesis unfolding walked_def by blast
  next
    assume "\<exists>r. filter is_creation new = [r] \<and> creates cfg http p x r"
    with new have "tr2 = tr @ new \<and> list_all (issue_request cfg http p) new
        \<and> preorder (x # rest) = [x] @ (preorder (children x) @ preorder rest)
        \<and> list_all2 (creates cfg http p) [x] (filter is_creation new)
        \<and> (False \<longrightarrow> preorder (children x) @ preorder rest = [])"
      by auto
    then show ?thesis unfolding walked_def by blast
  qed
qed

lemma walked_Cons:
  assumes n: "node_done cfg http p x tr True tr2"
    and k: "walked cfg http p (children x) tr2 ok1 tr3"
    and r: "if ok1 then walked cfg http p rest tr3 ok tr' else \<not> ok \<and> tr' = tr3"
  shows "walked cfg http p (x # rest) tr ok tr'"
proof -
  from n obtain n1 c where n1: "tr2 = tr @ n1" "list_all (issue_request cfg http p) n1"
    "filter is_creation n1 = [c]" "creates cfg http p x c"
    unfolding node_done_def by blast
  from k obtain n2 d2 t2 where n2: "tr3 = tr2 @ n2" "list_all (issue_request cfg http p) n2"
    "preorder (children x) = d2 @ t2"
    "list_all2 (creates cfg http p) d2 (filter is_creation n2)" "ok1 \<longrightarrow> t2 = []"
    unfolding walked_def by blast
  show ?thesis
  proof (cases ok1)
    case False
    with r have "\<not> ok" "tr' = tr3" by simp_all
    with n1 n2 have "tr' = tr @ (n1 @ n2) \<and> list_all (issue_request cfg http p) (n1 @ n2)
        \<and> preorder (x # rest) = (x # d2) @ (t2 @ preorder rest)
        \<and> list_all2 (creates cfg http p) (x # d2) (filter is_creation (n1 @ n2))
        \<and> (ok \<longrightarrow> t2 @ preorder rest = [])"
      by simp
    then show ?thesis unfolding walked_def by blast
  next
    case True
    with r n2 have "walked cfg http p rest tr3 ok tr'" and t2: "t2 = []" by simp_all
    then obtain n3 d3 t3 where n3: "tr' = tr3 @ n3" "list_all (issue_request cfg http p) n3"
      "preorder rest = d3 @ t3"
      "list_all2 (creates cfg http p) d3 (filter is_creation n3)" "ok \<longrightarrow> t3 = []"
      unfolding walked_def by blast
    from n1 n2 n3 t2 have "tr' = tr @ (n1 @ n2 @ n3)
        \<and> list_all (issue_request cfg http p) (n1 @ n2 @ n3)
        \<and> preorder (x # rest) = (x # d2 @ d3) @ t3
        \<and> list_all2 (creates cfg http p) (x # d2 @ d3) (filter is_creation (n1 @ n2 @ n3))
        \<and> (ok \<longrightarrow> t3 = [])"
      by (simp add: list_all2_appendI)
    then show ?thesis unfolding walked_def by blast
  qed
qed

lemma node_done_link:
  assumes "node_done cfg http p x tr b tr1"
  shows "node_done cfg http p x tr b (tr1 @ [link_request a c d])"
proof -
  from assms obtain new where new: "tr1 = tr @ new" "list_all (issue_request cfg http p) new"
    "\<not> b \<and> filter is_creation new = []
      \<or> (\<exists>r. filter is_creation new = [r] \<and> creates cfg http p x r)"
    unfolding node_done_def by blast
  then have "tr1 @ [link_request a c d] = tr @ (new @ [link_request a c d])
      \<and> list_all (issue_request cfg http p) (new @ [link_request a c d])
      \<and> (\<not> b \<and> filter is_creation (new @ [link_request a c d]) = []
          \<or> (\<exists>r. filter is_creation (new @ [link_request a c d]) = [r]
                \<and> creates cfg http p x r))"
    by (auto simp: issue_request_def)
  then show ?thesis unfolding node_done_def by blast
qed

lemma node_done_weaken: "node_done cfg http p x tr True tr' \<Longrightarrow> node_done cfg http p x tr b tr'"
  unfolding node_done_def by blast

lemma node_done_refl: "node_done cfg http p x tr False tr"
  unfolding node_done_def by (intro exI [where x = "[]"]) simp

lemma create_list_step_node_done:
  assumes "create_list_step cfg http p x ek pk tr = (res, tr')"
  shows "node_done cfg http p x tr (\<not> isl res) tr'"
proof (cases x)
  case (JDict issue)
  show ?thesis
  proof (cases "map_of issue ''issuetype'' = None \<or> map_of issue ''summary'' = None")
    case True
    with assms JDict have "tr' = tr" "isl res"
      by (auto simp: create_list_step_def split: option.splits)
    then show ?thesis by (simp add: node_done_refl)
  next
    case False
    then obtain t s where ts: "map_of issue ''issuetype'' = Some t"
      "map_of issue ''summary'' = Some s" by auto
    obtain r1 tr1 where c: "create_new_jira_issue cfg http p issue ek pk tr = (r1, tr1)"
      by (cases "create_new_jira_issue cfg http p issue ek pk tr")
    note nd = create_new_jira_issue_node_done [OF c]
    show ?thesis
    proof (cases r1)
      case (Inl e)
      with assms JDict ts c have "tr' = tr1" "res = Inl e"
        by (simp_all add: create_list_step_def)
      with nd Inl JDict show ?thesis by simp
    next
      case (Inr resp)
      with nd have nd1: "node_done cfg http p x tr True tr1" using JDict by simp
      show ?thesis
      proof (cases "result_getitem resp ''key''")
        case (Inl e)
        with assms JDict ts c Inr have "tr' = tr1" "res = Inl e"
          by (simp_all add: create_list_step_def)
        with nd1 show ?thesis by (simp add: node_done_weaken)
      next
        case k: (Inr k)
        show ?thesis
        proof (cases "truthy pk \<and> \<not> py_eq t (JStr ''Sub-task'')")
          case False
          with assms JDict ts c Inr k have "tr' = tr1" "res = Inr (issue, k)"
            by (auto simp: create_list_step_def)
          with nd1 show ?thesis by simp
        next
          case True
          let ?lt = "case map_of issue ''linkType'' of None \<Rightarrow> JStr ''Related'' | Some t \<Rightarrow> t"
          obtain r2 tr2 where l: "link_jira_issues http k pk ?lt tr1 = (r2, tr2)"
            by (cases "link_jira_issues http k pk ?lt tr1")
          from link_jira_issues_trace [OF l] have tr2: "tr2 = tr1 @ [link_request k pk ?lt]" .
          from assms JDict ts c Inr k True l have "tr' = tr2"
            by (auto simp: create_list_step_def split: sum.splits)
          with tr2 node_done_link [OF nd1] show ?thesis by (simp add: node_done_weaken)
        qed
      qed
    qed
  qed
qed (use assms in \<open>auto simp: create_list_step_def node_done_refl\<close>)

lemma create_list_loop_walked:
  "create_list_loop cfg http p xs ek pk tr = (res, tr')
   \<Longrightarrow> walked cfg http p xs tr (\<not> isl res) tr'"
proof (induction cfg http p xs ek pk tr arbitrary: res tr' rule: create_list_loop.induct)
  case (1 cfg http p ek pk tr)
  then show ?case by (auto simp: walked_Nil)
next
  case (2 cfg http p x rest ek pk tr)
  obtain r1 tr2 where s: "create_list_step cfg http p x ek pk tr = (r1, tr2)"
    by (cases "create_list_step cfg http p x ek pk tr")
  note nd = create_list_step_node_done [OF s]
  show ?case
  proof (cases r1)
    case (Inl e)
    with "2.prems" s have "res = Inl e" "tr' = tr2" by simp_all
    with walked_fail [OF nd] show ?thesis by simp
  next
    case (Inr ik)
    obtain issue k where ik: "ik = (issue, k)" by (cases ik)
    from s Inr ik have x: "x = JDict issue" by (auto dest: create_list_step_Inr)
    from nd Inr have nd1: "node_done cfg http p x tr True tr2" by simp
    show ?thesis
    proof (cases "map_of issue ''issues''")
      case None
      with "2.prems" s Inr ik
      have rest: "create_list_loop cfg http p rest ek pk tr2 = (res, tr')" by simp
      from "2.IH"(1) [OF s [symmetric] Inr ik [symmetric] None rest]
      have "walked cfg http p rest tr2 (\<not> isl res) tr'" .
      moreover from x None have "children x = []" by (simp add: children_def)
      ultimately show ?thesis
        using walked_Cons [OF nd1, of True tr2 rest "\<not> isl res" tr'] by (simp add: walked_Nil)
    next
      case (Some c)
      show ?thesis
      proof (cases "py_iter c")
        case (Inl e)
        with "2.prems" s \<open>r1 = Inr ik\<close> ik Some have "res = Inl e" "tr' = tr2" by simp_all
        with walked_fail [OF nd] show ?thesis by simp
      next
        case cs: (Inr cs)
        from x Some cs have ch: "children x = cs" by (simp add: children_def)
        obtain rc tr3 where kids: "create_list_loop cfg http p cs ek k tr2 = (rc, tr3)"
          by (cases "create_list_loop cfg http p cs ek k tr2")
        from "2.IH"(2) [OF s [symmetric] \<open>r1 = Inr ik\<close> ik [symmetric] Some cs kids]
        have wk: "walked cfg http p (children x) tr2 (\<not> isl rc) tr3" using ch by simp
        show ?thesis
        proof (cases rc)
          case (Inl e)
          with "2.prems" s \<open>r1 = Inr ik\<close> ik Some cs kids have "res = Inl e" "tr' = tr3"
            by simp_all
          with walked_Cons [OF nd1 wk, of rest "\<not> isl res" tr'] Inl show ?thesis by simp
        next
          case (Inr u)
          with "2.prems" s \<open>r1 = Inr ik\<close> ik Some cs kids
          have rest: "create_list_loop cfg http p rest ek pk tr3 = (res, tr')" by simp
          from "2.IH"(3) [OF s [symmetric] \<open>r1 = Inr ik\<close> ik [symmetric] Some cs
              kids [symmetric] Inr rest]
          have "walked cfg http p rest tr3 (\<not> isl res) tr'" .
          with walked_Cons [OF nd1 wk, of rest "\<not> isl res" tr'] Inr show ?thesis by simp
        qed
      qed
    qed
  qed
qed

lemma create_epic_walked:
  assumes e: "create_epic cfg http p x tr = (r1, tr1)"
    and r: "if \<not> isl r1 then walked cfg http p rest tr1 ok tr' else \<not> ok \<and> tr' = tr1"
  shows "walked cfg http p (x # rest) tr ok tr'"
proof -
  have fail: "walked cfg http p (x # rest) tr ok tr'"
    if "node_done cfg http p x tr b tr1" "isl r1" for b
    using walked_fail [OF that(1), of rest] r that(2) by auto
  have nondict: "walked cfg http p (x # rest) tr ok tr'" if "\<not> is_dict x"
  proof -
    from e that have "tr1 = tr \<and> isl r1" by (cases x) (auto simp: create_epic_def)
    with fail [of False] show ?thesis by (simp add: node_done_refl)
  qed
  show ?thesis
  proof (cases "is_dict x")
    case False
    then show ?thesis by (rule nondict)
  next
    case True
    then obtain epic where JDict: "x = JDict epic" by (cases x) auto
    show ?thesis
    proof (cases "map_of epic ''epicName''")
      case None
      with e JDict have "tr1 = tr" "isl r1" by (auto simp: create_epic_def)
      with fail [of False] show ?thesis by (simp add: node_done_refl)
    next
      case (Some n)
      obtain rc tr2 where c: "create_new_jira_issue cfg http p epic JNull JNull tr = (rc, tr2)"
        by (cases "create_new_jira_issue cfg http p epic JNull JNull tr")
      note nd = create_new_jira_issue_node_done [OF c]
      show ?thesis
      proof (cases rc)
        case (Inl err)
        with e JDict Some c have "tr1 = tr2" "isl r1" by (auto simp: create_epic_def)
        with fail [of "\<not> isl rc"] nd JDict show ?thesis by simp
      next
        case (Inr resp)
        with nd JDict have nd1: "node_done cfg http p x tr True tr2" by simp
        show ?thesis
        proof (cases "result_getitem resp ''key''")
          case (Inl err)
          with e JDict Some c Inr have "tr1 = tr2" "isl r1" by (auto simp: create_epic_def)
          with fail [of True] nd1 show ?thesis by simp
        next
          case k: (Inr k)
          show ?thesis
          proof (cases "map_of epic ''issues''")
            case None
            with e JDict Some c Inr k have "tr1 = tr2" "\<not> isl r1"
              by (auto simp: create_epic_def)
            moreover from JDict None have "children x = []" by (simp add: children_def)
            ultimately show ?thesis
              using walked_Cons [OF nd1, of True tr2 rest ok tr'] r by (simp add: walked_Nil)
          next
            case ch: (Some ch)
            show ?thesis
            proof (cases "py_iter ch")
              case (Inl err)
              with e JDict Some c Inr k ch have "tr1 = tr2" "isl r1"
                by (auto simp: create_epic_def create_list_of_jira_issues_def)
              with fail [of True] nd1 show ?thesis by simp
            next
              case cs: (Inr cs)
              with e JDict Some c Inr k ch
              have "create_list_loop cfg http p cs k JNull tr2 = (r1, tr1)"
                by (auto simp: create_epic_def create_list_of_jira_issues_def)
              from create_list_loop_walked [OF this]
              have "walked cfg http p (children x) tr2 (\<not> isl r1) tr1"
                using JDict ch cs by (simp add: children_def)
              from walked_Cons [OF nd1 this, of rest ok tr'] r show ?thesis by simp
            qed
          qed
        qed
      qed
    qed
  qed
qed

lemma create_epics_and_issues_walked:
  "create_epics_and_issues cfg http p epics tr = (res, tr')
   \<Longrightarrow> walked cfg http p epics tr (\<not> isl res) tr'"
proof (induction epics arbitrary: tr)
  case Nil
  then show ?case by (auto simp: walked_Nil)
next
  case (Cons x epics)
  obtain r1 tr1 where e: "create_epic cfg http p x tr = (r1, tr1)"
    by (cases "create_epic cfg http p x tr")
  show ?case
  proof (cases r1)
    case (Inl err)
    with Cons.prems e have "res = Inl err" "tr' = tr1" by simp_all
    with create_epic_walked [OF e, of epics "\<not> isl res" tr'] Inl show ?thesis by simp
  next
    case (Inr u)
    with Cons.prems e have "create_epics_and_issues cfg http p epics tr1 = (res, tr')" by simp
    from Cons.IH [OF this] create_epic_walked [OF e, of epics "\<not> isl res" tr'] Inr
    show ?thesis by simp
  qed
qed

section \<open>C4: the order of the creation requests\<close>

text \<open>
  C4: whatever the tracker answers, the creation requests that
  \<^verbatim>\<open>create_epics_and_issues\<close> sends are, in the order sent, creation requests for the
  nodes of a prefix of the forest's preorder (input order, depth-first, an epic or parent
  before its children and descendants), one request per node; when the build succeeds the
  prefix is the whole preorder. So no node is created before its parent or its epic, or
  before an earlier sibling and that sibling's descendants.
\<close>

theorem C4_creation_order:
  assumes "create_epics_and_issues cfg http p epics tr = (res, tr')"
  shows "\<exists>new done todo. tr' = tr @ new \<and> preorder epics = done @ todo
           \<and> list_all2 (creates cfg http p) done (filter is_creation new)
           \<and> (res = Inr () \<longrightarrow> todo = [])"
proof -
  from create_epics_and_issues_walked [OF assms] obtain new "done" todo where
    "tr' = tr @ new" "preorder epics = done @ todo"
    "list_all2 (creates cfg http p) done (filter is_creation new)" "\<not> isl res \<longrightarrow> todo = []"
    unfolding walked_def by blast
  moreover have "res = Inr () \<longrightarrow> \<not> isl res" by auto
  ultimately show ?thesis by blast
qed

text \<open>
  The tree of the spec's example, with a task \<open>T\<close> beside the sub-task: the requests are
  the creations of \<open>E\<close>, \<open>I1\<close>, \<open>S\<close>, \<open>T\<close>, the link of \<open>T\<close> to \<open>I1\<close>, and the
  creation of \<open>I2\<close>.
\<close>

theorem C4_creation_order_witness:
  "create_epics_and_issues cfg_components tracker_echo ''PROJ'' [epic_tree] []
     = (Inr (),
        [creation_request [(''epicName'', JStr ''E''), (''summary'', JStr ''E''),
                           (''issuetype'', JStr ''Epic''),
                           (''project'', JDict [(''key'', JStr ''PROJ'')])],
         creation_request [(''summary'', JStr ''I1''), (''issuetype'', JStr ''Story''),
                           (''project'', JDict [(''key'', JStr ''PROJ'')]),
                           (''customfield_10014'', JStr ''K-E'')],
         creation_request [(''summary'', JStr ''S''), (''issuetype'', JStr ''Sub-task''),
                           (''project'', JDict [(''key'', JStr ''PROJ'')]),
                           (''parent'', JDict [(''key'', JStr ''K-I1'')])],
         creation_request [(''summary'', JStr ''T''), (''issuetype'', JStr ''Task''),
                           (''project'', JDict [(''key'', JStr ''PROJ'')]),
                           (''customfield_10014'', JStr ''K-E'')],
         link_request (JStr ''K-T'') (JStr ''K-I1'') (JStr ''Related''),
         creation_request [(''summary'', JStr ''I2''), (''issuetype'', JStr ''Task''),
                           (''project'', JDict [(''key'', JStr ''PROJ'')]),
                           (''customfield_10014'', JStr ''K-E'')]])
   \<and> preorder [epic_tree] = [epic_tree, issue_I1, subtask_S, task_T, issue_I2]
   \<and> list_all2 (creates cfg_components tracker_echo ''PROJ'')
        [epic_tree, issue_I1, subtask_S, task_T, issue_I2]
        (filter is_creation
           (snd (create_epics_and_issues cfg_components tracker_echo ''PROJ'' [epic_tree] [])))"
proof -
  let ?run = "create_epics_and_issues cfg_components tracker_echo ''PROJ'' [epic_tree] []"
  let ?nodes = "[epic_tree, issue_I1, subtask_S, task_T, issue_I2]"
  have run: "?run
     = (Inr (),
        [creation_request [(''epicName'', JStr ''E''), (''summary'', JStr ''E''),
                           (''issuetype'', JStr ''Epic''),
                           (''project'', JDict [(''key'', JStr ''PROJ'')])],
         creation_request [(''summary'', JStr ''I1''), (''issuetype'', JStr ''Story''),
                           (''project'', JDict [(''key'', JStr ''PROJ'')]),
                           (''customfield_10014'', JStr ''K-E'')],
         creation_request [(''summary'', JStr ''S''), (''issuetype'', JStr ''Sub-task''),
                           (''project'', JDict [(''key'', JStr ''PROJ'')]),
                           (''parent'', JDict [(''key'', JStr ''K-I1'')])],
         creation_request [(''summary'', JStr ''T''), (''issuetype'', JStr ''Task''),
                           (''project'', JDict [(''key'', JStr ''PROJ'')]),
                           (''customfield_10014'', JStr ''K-E'')],
         link_request (JStr ''K-T'') (JStr ''K-I1'') (JStr ''Related''),
         creation_request [(''summary'', JStr ''I2''), (''issuetype'', JStr ''Task''),
                           (''project'', JDict [(''key'', JStr ''PROJ'')]),
                           (''customfield_10014'', JStr ''K-E'')]])"
    by (simp add: run_defs cfg_components_def tracker_echo_def body_fields_def
          epic_tree_def issue_I1_def issue_I2_def subtask_S_def task_T_def
          creation_request_def link_request_def)
  have pre: "preorder [epic_tree] = ?nodes"
    by (simp add: children_def epic_tree_def issue_I1_def issue_I2_def subtask_S_def
          task_T_def)
  have "?run = (fst ?run, snd ?run)" by simp
  from C4_creation_order [OF this] obtain new "done" todo where
    "snd ?run = [] @ new" "preorder [epic_tree] = done @ todo"
    "list_all2 (creates cfg_components tracker_echo ''PROJ'') done (filter is_creation new)"
    "fst ?run = Inr () \<longrightarrow> todo = []"
    by blast
  moreover have "fst ?run = Inr ()" using run by simp
  ultimately have "list_all2 (creates cfg_components tracker_echo ''PROJ'')
      (preorder [epic_tree]) (filter is_creation (snd ?run))"
    by simp
  then have "list_all2 (creates cfg_components tracker_echo ''PROJ'') ?nodes
      (filter is_creation (snd ?run))"
    unfolding pre .
  with run pre show ?thesis by blast
qed

section \<open>C6: the structural keys are not sent\<close>

lemma has_reserved_key_iff:
  "has_reserved_key F = (map_of F ''issues'' \<noteq> None \<or> map_of F ''issuelinks'' \<noteq> None)"
  by (simp add: has_reserved_key_def map_of_eq_None_iff)

lemma build_field_clean:
  assumes "build_field cfg http p ex g w acc tr = (Inr acc', tr')"
    and "no_reserved_wire_id cfg" and "\<not> has_reserved_key acc"
  shows "\<not> has_reserved_key acc'"
  using build_field_keys [OF assms(1)] assms(2,3)
  by (auto simp: has_reserved_key_iff no_reserved_wire_id_def map_of_dict_set)

lemma build_loop_clean:
  assumes "build_loop cfg http p ex flds acc tr = (Inr out, tr')"
    and "no_reserved_wire_id cfg" and "\<not> has_reserved_key acc"
  shows "\<not> has_reserved_key out"
  using assms(1,3)
proof (induction flds arbitrary: acc tr)
  case Nil
  then show ?case by simp
next
  case (Cons kv flds)
  obtain g w where kv: "kv = (g, w)" by (cases kv)
  from Cons.prems(1) kv obtain acc1 tr1 where
    step: "build_field cfg http p ex g w acc tr = (Inr acc1, tr1)"
    and rest: "build_loop cfg http p ex flds acc1 tr1 = (Inr out, tr')"
    by (auto split: prod.splits sum.splits)
  from build_field_clean [OF step assms(2) Cons.prems(2)] Cons.IH [OF rest] show ?case
    by blast
qed

lemma build_issue_data_clean:
  assumes "build_issue_data cfg http p flds ex tr = (Inr out, tr')"
    and "no_reserved_wire_id cfg"
  shows "\<not> has_reserved_key out"
  using build_loop_clean [OF assms(1) [unfolded build_issue_data_def] assms(2)]
  by (simp add: has_reserved_key_def)

lemma set_project_and_parent_clean:
  assumes "set_project_and_parent cfg p issue ek pk F = Inr F'"
    and "no_reserved_wire_id cfg" and "\<not> has_reserved_key F"
  shows "\<not> has_reserved_key F'"
  using assms unfolding set_project_and_parent_def Let_def
  by (auto simp: has_reserved_key_iff no_reserved_wire_id_def map_of_dict_set
           split: if_splits option.splits dest!: set_custom_Inr dest: wire_ids_top)

lemma issue_request_clean:
  assumes "issue_request cfg http p r" and "no_reserved_wire_id cfg"
  shows "\<not> carries_reserved_key r"
proof -
  from assms(1) consider "is_get r" | "is_link r" | "\<exists>node. creates cfg http p node r"
    | "updates cfg http p r"
    unfolding issue_request_def by blast
  then show ?thesis
  proof cases
    case 1
    then show ?thesis by (simp add: is_get_def carries_reserved_key_def body_fields_def)
  next
    case 2
    then show ?thesis
      by (auto simp: is_link_def link_request_def carries_reserved_key_def body_fields_def)
  next
    case 3
    then obtain issue ek pk tr F tr1 F' where
      b: "build_issue_data cfg http p issue (post_creation_update_fields cfg) tr = (Inr F, tr1)"
      and f: "set_project_and_parent cfg p issue ek pk F = Inr F'"
      and r: "r = creation_request F'"
      unfolding creates_def by blast
    from set_project_and_parent_clean [OF f assms(2) build_issue_data_clean [OF b assms(2)]] r
    show ?thesis
      by (simp add: creation_request_def issue_data_def carries_reserved_key_def body_fields_def)
  next
    case 4
    then obtain issue k tr U tr1 where
      b: "build_issue_data cfg http p issue (fields_set_during_issue_creation cfg issue) tr
            = (Inr U, tr1)"
      and r: "r = update_request k U"
      unfolding updates_def by blast
    from build_issue_data_clean [OF b assms(2)] r show ?thesis
      by (simp add: update_request_def issue_data_def carries_reserved_key_def body_fields_def)
  qed
qed

text \<open>
  C6, as amended: under a configuration none of whose wire ids (the ids of the custom field
  mapping, \<^verbatim>\<open>epicLink\<close> among them, and of its nested mappings) is \<^verbatim>\<open>issues\<close> or
  \<^verbatim>\<open>issuelinks\<close>, the fields map that the translation produces has neither key, for every
  input field map and exclusion set; and when no request sent so far carries one of the
  keys in its fields map, none does after \<^verbatim>\<open>create_epics_and_issues\<close>.
\<close>

theorem C6_no_structural_keys:
  assumes "no_reserved_wire_id cfg"
  shows "(\<forall>F tr1. build_issue_data cfg http p flds exclude_fields tr = (Inr F, tr1)
            \<longrightarrow> \<not> has_reserved_key F)
       \<and> (list_all (\<lambda>r. \<not> carries_reserved_key r) tr
            \<longrightarrow> list_all (\<lambda>r. \<not> carries_reserved_key r)
                  (snd (create_epics_and_issues cfg http p epics tr)))"
proof -
  obtain res tr' where run: "create_epics_and_issues cfg http p epics tr = (res, tr')"
    by (cases "create_epics_and_issues cfg http p epics tr")
  from create_epics_and_issues_walked [OF run] obtain new where
    new: "tr' = tr @ new" "list_all (issue_request cfg http p) new"
    unfolding walked_def by blast
  from new(2) have "list_all (\<lambda>r. \<not> carries_reserved_key r) new"
    by (induction new) (auto simp: issue_request_clean [OF _ assms])
  with new(1) run show ?thesis
    using build_issue_data_clean [OF _ assms] by auto
qed

text \<open>The theorem at the epic with one task: the translation of the epic's fields drops
  its \<^verbatim>\<open>issues\<close>, and no request of the build carries a structural key.\<close>

theorem C6_no_structural_keys_witness:
  "no_reserved_wire_id cfg_components
   \<and> build_issue_data cfg_components tracker_echo ''PROJ'' epic_fields [] []
       = (Inr [(''epicName'', JStr ''E1''), (''summary'', JStr ''E1''),
               (''issuetype'', JStr ''Epic'')], [])
   \<and> \<not> has_reserved_key [(''epicName'', JStr ''E1''), (''summary'', JStr ''E1''),
                            (''issuetype'', JStr ''Epic'')]
   \<and> list_all (\<lambda>r. \<not> carries_reserved_key r)
        (snd (create_epics_and_issues cfg_components tracker_echo ''PROJ'' [epic_with_task] []))"
proof -
  have nr: "no_reserved_wire_id cfg_components"
    by (simp add: no_reserved_wire_id_def wire_ids_def cfg_components_def)
  have b: "build_issue_data cfg_components tracker_echo ''PROJ'' epic_fields [] []
       = (Inr [(''epicName'', JStr ''E1''), (''summary'', JStr ''E1''),
               (''issuetype'', JStr ''Epic'')], [])"
    by (simp add: build_issue_data_def build_field_def cfg_components_def epic_fields_def)
  from C6_no_structural_keys [OF nr, of tracker_echo "''PROJ''" epic_fields "[]" "[]"
      "[epic_with_task]"] b nr
  show ?thesis by simp
qed

text \<open>C6 as stated fails under a configuration that maps a field to the wire id
  \<^verbatim>\<open>issuelinks\<close>: the translator writes the field under that key.\<close>

theorem C6_counterexample:
  "build_issue_data cfg_links tracker_echo ''PROJ'' [(''links'', JStr ''A-1'')] [] []
     = (Inr [(''issuelinks'', JStr ''A-1'')], [])
   \<and> has_reserved_key [(''issuelinks'', JStr ''A-1'')]"
  by (simp add: build_issue_data_def build_field_def cfg_links_def has_reserved_key_def)

section \<open>C3: the fields set after creation\<close>

text \<open>The translation with an exclusion set is the translation, with no exclusion, of the
  fields that are neither excluded nor structural.\<close>

lemma build_field_skip:
  "g = ''issues'' \<or> g \<in> set ex \<or> g = ''issuelinks''
   \<Longrightarrow> build_field cfg http p ex g w acc tr = (Inr acc, tr)"
  by (auto simp: build_field_def)

lemma build_field_no_exclusion:
  "g \<notin> set ex \<Longrightarrow> build_field cfg http p ex g w acc tr = build_field cfg http p [] g w acc tr"
  by (simp add: build_field_def)

lemma build_loop_filter:
  "build_loop cfg http p ex flds acc tr
     = build_loop cfg http p []
         (filter (\<lambda>kv. fst kv \<notin> set ex \<and> fst kv \<noteq> ''issues'' \<and> fst kv \<noteq> ''issuelinks'') flds)
         acc tr"
proof (induction flds arbitrary: acc tr)
  case Nil
  show ?case by simp
next
  case (Cons kv flds)
  obtain g w where kv: "kv = (g, w)" by (cases kv)
  show ?case
  proof (cases "g = ''issues'' \<or> g \<in> set ex \<or> g = ''issuelinks''")
    case True
    with kv Cons.IH show ?thesis by (auto simp: build_field_skip)
  next
    case False
    with kv Cons.IH show ?thesis
      by (auto simp: build_field_no_exclusion [of g ex] split: prod.splits sum.splits)
  qed
qed

lemma build_creation_fields:
  "build_issue_data cfg http p issue (post_creation_update_fields cfg) tr
     = build_issue_data cfg http p (creation_fields cfg issue) [] tr"
  unfolding build_issue_data_def creation_fields_def by (rule build_loop_filter)

lemma build_deferred_fields:
  "build_issue_data cfg http p issue (fields_set_during_issue_creation cfg issue) tr
     = build_issue_data cfg http p (deferred_fields cfg issue) [] tr"
proof -
  have "filter (\<lambda>kv. fst kv \<notin> set (fields_set_during_issue_creation cfg issue)
                  \<and> fst kv \<noteq> ''issues'' \<and> fst kv \<noteq> ''issuelinks'') issue
        = deferred_fields cfg issue"
    unfolding deferred_fields_def fields_set_during_issue_creation_def
    by (rule filter_cong) auto
  with build_loop_filter [of cfg http p "fields_set_during_issue_creation cfg issue" issue "[]" tr]
  show ?thesis
    unfolding build_issue_data_def by simp
qed

text \<open>What follows the creation request, by the stage the run reaches.\<close>

lemma update_and_link_stages:
  assumes "update_and_link cfg http p issue rd tr = (res, tr')"
  shows "\<exists>g2. list_all is_get g2 \<and>
     (isl res \<and> tr' = tr @ g2
      \<or> (\<exists>k U links.
            result_getitem rd ''key'' = Inr k
          \<and> build_issue_data cfg http p (deferred_fields cfg issue) [] tr = (Inr U, tr @ g2)
          \<and> tr' = tr @ g2 @ (if U \<noteq> [] then [update_request k U] else []) @ links
          \<and> list_all is_link links
          \<and> (res = Inr rd \<or> isl res)))"
    (is "\<exists>g2. ?Q g2")
proof -
  have early: "?Q []" if "tr' = tr" "isl res"
    using that by simp
  show ?thesis
  proof (cases "result_getitem rd ''key''")
    case (Inl e)
    with assms have "tr' = tr" "isl res" by (auto simp: update_and_link_def)
    from early [OF this] show ?thesis by blast
  next
    case k: (Inr k)
    show ?thesis
    proof (cases "truthy k")
      case False
      with assms k have "tr' = tr" "isl res" by (auto simp: update_and_link_def)
      from early [OF this] show ?thesis by blast
    next
      case True
      obtain r3 tr3 where b: "build_issue_data cfg http p (deferred_fields cfg issue) [] tr
          = (r3, tr3)"
        by (cases "build_issue_data cfg http p (deferred_fields cfg issue) [] tr")
      from build_issue_data_trace [OF b] obtain g2 where
        g2: "tr3 = tr @ g2" "list_all is_get g2" by blast
      from b have b': "build_issue_data cfg http p issue
          (fields_set_during_issue_creation cfg issue) tr = (r3, tr3)"
        by (simp add: build_deferred_fields)
      show ?thesis
      proof (cases r3)
        case (Inl e)
        with assms k True b' have "isl res" "tr' = tr3" by (auto simp: update_and_link_def)
        with g2 have "?Q g2" by simp
        then show ?thesis by blast
      next
        case U: (Inr U)
        let ?upd = "if U \<noteq> [] then [update_request k U] else []"
        obtain r4 tr4 where u: "send_update http k U tr3 = (r4, tr4)"
          by (cases "send_update http k U tr3")
        from send_update_trace [OF u True] have tr4: "tr4 = tr3 @ ?upd" .
        from b U g2 have bU: "build_issue_data cfg http p (deferred_fields cfg issue) [] tr
            = (Inr U, tr @ g2)" by simp
        obtain links where links: "tr' = tr4 @ links" "list_all is_link links"
          and res: "res = Inr rd \<or> isl res"
        proof (cases r4)
          case (Inl e)
          with assms k True b' U u have "isl res" "tr' = tr4 @ []"
            by (auto simp: update_and_link_def)
          with that [of "[]"] show ?thesis by simp
        next
          case (Inr u4)
          obtain r5 tr5 where l: "link_issuelinks http issue k tr4 = (r5, tr5)"
            by (cases "link_issuelinks http issue k tr4")
          from link_issuelinks_trace [OF l] obtain ls where
            ls: "tr5 = tr4 @ ls" "list_all is_link ls" by blast
          from assms k True b' U u Inr l
          have "tr' = tr5" "res = Inr rd \<or> isl res"
            by (auto simp: update_and_link_def split: sum.splits)
          with ls that [of ls] show ?thesis by simp
        qed
        from k bU tr4 g2 links res
        have "result_getitem rd ''key'' = Inr k
          \<and> build_issue_data cfg http p (deferred_fields cfg issue) [] tr = (Inr U, tr @ g2)
          \<and> tr' = tr @ g2 @ ?upd @ links
          \<and> list_all is_link links
          \<and> (res = Inr rd \<or> isl res)"
          by simp
        then have "?Q g2" using g2(2) by blast
        then show ?thesis by blast
      qed
    qed
  qed
qed

text \<open>
  C3, as amended: in every run of \<^verbatim>\<open>create_new_jira_issue\<close>, whatever its outcome, the
  requests sent are lookups of the first translation, then the creation request, then
  lookups of the second translation, then the update request, then links, up to the stage
  the run reaches. The fields map of the creation request is the translation of exactly
  the input fields whose names are not post-creation fields, in which lines 359-367 then
  set \<^verbatim>\<open>project\<close> and the epic link or \<^verbatim>\<open>parent\<close>, replacing what the input gave under
  these keys. The fields map of the update request is the translation of exactly the input
  fields whose names are post-creation fields; the update is sent, after the creation, if
  and only if that translation is not empty. A run that succeeds reaches the last stage and
  returns the response to the creation request. (\<^verbatim>\<open>issues\<close> and \<^verbatim>\<open>issuelinks\<close> are not
  fields and are translated into neither body.)
\<close>

theorem C3_deferred_fields:
  assumes "create_new_jira_issue cfg http p issue ek pk tr = (res, tr')"
  shows "\<exists>g1. list_all is_get g1 \<and>
     (isl res \<and> tr' = tr @ g1
      \<or> (\<exists>F F' g2.
            build_issue_data cfg http p (creation_fields cfg issue) [] tr = (Inr F, tr @ g1)
          \<and> set_project_and_parent cfg p issue ek pk F = Inr F'
          \<and> list_all is_get g2
          \<and> (isl res \<and> tr' = tr @ g1 @ [creation_request F'] @ g2
              \<or> (\<exists>rd k U links.
                    send_request http (Some ''issue'') None JNull (Some (issue_data F'))
                        ''post'' (tr @ g1)
                      = (Inr rd, tr @ g1 @ [creation_request F'])
                  \<and> result_getitem rd ''key'' = Inr k
                  \<and> build_issue_data cfg http p (deferred_fields cfg issue) []
                        (tr @ g1 @ [creation_request F'])
                      = (Inr U, tr @ g1 @ [creation_request F'] @ g2)
                  \<and> tr' = tr @ g1 @ [creation_request F'] @ g2
                             @ (if U \<noteq> [] then [update_request k U] else []) @ links
                  \<and> list_all is_link links
                  \<and> (res = Inr rd \<or> isl res)))))"
proof -
  obtain r1 tr1 where b: "build_issue_data cfg http p (creation_fields cfg issue) [] tr
      = (r1, tr1)"
    by (cases "build_issue_data cfg http p (creation_fields cfg issue) [] tr")
  from build_issue_data_trace [OF b] obtain g1 where g1: "tr1 = tr @ g1" "list_all is_get g1"
    by blast
  from b have b': "build_issue_data cfg http p issue (post_creation_update_fields cfg) tr
      = (r1, tr1)"
    by (simp add: build_creation_fields)
  show ?thesis
  proof (cases r1)
    case (Inl e)
    with assms b' have "isl res" "tr' = tr1" by (auto simp: create_new_jira_issue_def)
    with g1 show ?thesis by blast
  next
    case F: (Inr F)
    with b g1 have bF: "build_issue_data cfg http p (creation_fields cfg issue) [] tr
      = (Inr F, tr @ g1)" by simp
    show ?thesis
    proof (cases "set_project_and_parent cfg p issue ek pk F")
      case (Inl e)
      with assms b' F have "isl res" "tr' = tr1" by (auto simp: create_new_jira_issue_def)
      with g1 show ?thesis by blast
    next
      case F': (Inr F')
      let ?t2 = "tr @ g1 @ [creation_request F']"
      obtain r2 tr2 where s: "send_request http (Some ''issue'') None JNull
          (Some (issue_data F')) ''post'' tr1 = (r2, tr2)"
        by (cases "send_request http (Some ''issue'') None JNull
              (Some (issue_data F')) ''post'' tr1")
      from send_request_valid [OF s] g1 have tr2: "tr2 = ?t2"
        by (simp add: creation_request_def request_url_def)
      have "\<exists>g2. list_all is_get g2
          \<and> (isl res \<and> tr' = tr @ g1 @ [creation_request F'] @ g2
              \<or> (\<exists>rd k U links.
                    send_request http (Some ''issue'') None JNull (Some (issue_data F'))
                        ''post'' (tr @ g1)
                      = (Inr rd, tr @ g1 @ [creation_request F'])
                  \<and> result_getitem rd ''key'' = Inr k
                  \<and> build_issue_data cfg http p (deferred_fields cfg issue) []
                        (tr @ g1 @ [creation_request F'])
                      = (Inr U, tr @ g1 @ [creation_request F'] @ g2)
                  \<and> tr' = tr @ g1 @ [creation_request F'] @ g2
                             @ (if U \<noteq> [] then [update_request k U] else []) @ links
                  \<and> list_all is_link links
                  \<and> (res = Inr rd \<or> isl res)))"
        (is "\<exists>g2. ?R g2")
      proof (cases r2)
        case (Inl e)
        with assms b' F F' s tr2 have "isl res" "tr' = tr @ g1 @ [creation_request F'] @ []"
          by (auto simp: create_new_jira_issue_def)
        then have "?R []" by simp
        then show ?thesis by blast
      next
        case (Inr rd)
        with assms b' F F' s have "update_and_link cfg http p issue rd tr2 = (res, tr')"
          by (simp add: create_new_jira_issue_def)
        from update_and_link_stages [OF this] obtain g2 where g2: "list_all is_get g2"
          and d: "isl res \<and> tr' = tr2 @ g2
            \<or> (\<exists>k U links.
                  result_getitem rd ''key'' = Inr k
                \<and> build_issue_data cfg http p (deferred_fields cfg issue) [] tr2
                    = (Inr U, tr2 @ g2)
                \<and> tr' = tr2 @ g2 @ (if U \<noteq> [] then [update_request k U] else []) @ links
                \<and> list_all is_link links
                \<and> (res = Inr rd \<or> isl res))"
          by blast
        from s Inr g1(1) tr2
        have post: "send_request http (Some ''issue'') None JNull (Some (issue_data F'))
            ''post'' (tr @ g1) = (Inr rd, tr @ g1 @ [creation_request F'])"
          by simp
        from d show ?thesis
        proof
          assume "isl res \<and> tr' = tr2 @ g2"
          with g2 tr2 have "?R g2" by simp
          then show ?thesis by blast
        next
          assume "\<exists>k U links.
                  result_getitem rd ''key'' = Inr k
                \<and> build_issue_data cfg http p (deferred_fields cfg issue) [] tr2
                    = (Inr U, tr2 @ g2)
                \<and> tr' = tr2 @ g2 @ (if U \<noteq> [] then [update_request k U] else []) @ links
                \<and> list_all is_link links
                \<and> (res = Inr rd \<or> isl res)"
          then obtain k U links where
            "result_getitem rd ''key'' = Inr k"
            "build_issue_data cfg http p (deferred_fields cfg issue) [] tr2 = (Inr U, tr2 @ g2)"
            "tr' = tr2 @ g2 @ (if U \<noteq> [] then [update_request k U] else []) @ links"
            "list_all is_link links" "res = Inr rd \<or> isl res"
            by blast
          with post have "send_request http (Some ''issue'') None JNull (Some (issue_data F'))
                        ''post'' (tr @ g1)
                      = (Inr rd, tr @ g1 @ [creation_request F'])
                  \<and> result_getitem rd ''key'' = Inr k
                  \<and> build_issue_data cfg http p (deferred_fields cfg issue) []
                        (tr @ g1 @ [creation_request F'])
                      = (Inr U, tr @ g1 @ [creation_request F'] @ g2)
                  \<and> tr' = tr @ g1 @ [creation_request F'] @ g2
                             @ (if U \<noteq> [] then [update_request k U] else []) @ links
                  \<and> list_all is_link links
                  \<and> (res = Inr rd \<or> isl res)"
            unfolding tr2 by simp
          with g2 have "?R g2" by blast
          then show ?thesis by blast
        qed
      qed
      with bF F' g1(2) show ?thesis by blast
    qed
  qed
qed

text \<open>An issue whose \<^verbatim>\<open>assignee\<close> is set after creation: the creation request carries
  the summary and the type, the update request the assignee.\<close>

theorem C3_deferred_fields_witness:
  "create_new_jira_issue cfg_deferred tracker_ok ''PROJ'' issue_assignee JNull JNull []
     = (Inr (Parsed (JDict [(''key'', JStr ''K-1'')])),
        [creation_request [(''summary'', JStr ''T1''), (''issuetype'', JStr ''Task''),
                           (''project'', JDict [(''key'', JStr ''PROJ'')])],
         update_request (JStr ''K-1'') [(''assignee'', JDict [(''name'', JStr ''bob'')])]])
   \<and> creation_fields cfg_deferred issue_assignee
       = [(''summary'', JStr ''T1''), (''issuetype'', JStr ''Task'')]
   \<and> deferred_fields cfg_deferred issue_assignee = [(''assignee'', JStr ''bob'')]
   \<and> build_issue_data cfg_deferred tracker_ok ''PROJ''
         [(''summary'', JStr ''T1''), (''issuetype'', JStr ''Task'')] [] []
       = (Inr [(''summary'', JStr ''T1''), (''issuetype'', JStr ''Task'')], [])
   \<and> build_issue_data cfg_deferred tracker_ok ''PROJ'' [(''assignee'', JStr ''bob'')] []
         [creation_request [(''summary'', JStr ''T1''), (''issuetype'', JStr ''Task''),
                            (''project'', JDict [(''key'', JStr ''PROJ'')])]]
       = (Inr [(''assignee'', JDict [(''name'', JStr ''bob'')])],
          [creation_request [(''summary'', JStr ''T1''), (''issuetype'', JStr ''Task''),
                             (''project'', JDict [(''key'', JStr ''PROJ'')])]])"
proof -
  let ?post = "creation_request [(''summary'', JStr ''T1''), (''issuetype'', JStr ''Task''),
                                 (''project'', JDict [(''key'', JStr ''PROJ'')])]"
  have run: "create_new_jira_issue cfg_deferred tracker_ok ''PROJ'' issue_assignee JNull JNull []
     = (Inr (Parsed (JDict [(''key'', JStr ''K-1'')])),
        [?post,
         update_request (JStr ''K-1'') [(''assignee'', JDict [(''name'', JStr ''bob'')])]])"
    by (simp add: run_defs cfg_deferred_def tracker_ok_def issue_assignee_def
          creation_request_def update_request_def)
  have cf: "creation_fields cfg_deferred issue_assignee
       = [(''summary'', JStr ''T1''), (''issuetype'', JStr ''Task'')]"
    and df: "deferred_fields cfg_deferred issue_assignee = [(''assignee'', JStr ''bob'')]"
    by (simp_all add: creation_fields_def deferred_fields_def cfg_deferred_def
          issue_assignee_def)
  from C3_deferred_fields [OF run] obtain g1 F F' g2 U where
    b1: "build_issue_data cfg_deferred tracker_ok ''PROJ''
           (creation_fields cfg_deferred issue_assignee) [] [] = (Inr F, [] @ g1)"
    and f: "set_project_and_parent cfg_deferred ''PROJ'' issue_assignee JNull JNull F = Inr F'"
    and b2: "build_issue_data cfg_deferred tracker_ok ''PROJ''
           (deferred_fields cfg_deferred issue_assignee) [] ([] @ g1 @ [creation_request F'])
         = (Inr U, [] @ g1 @ [creation_request F'] @ g2)"
    by auto
  have F: "F = [(''summary'', JStr ''T1''), (''issuetype'', JStr ''Task'')]" and g1: "g1 = []"
    using b1 unfolding cf
    by (simp_all add: build_issue_data_def build_field_def cfg_deferred_def)
  have F': "creation_request F' = ?post"
    using f unfolding F
    by (simp add: set_project_and_parent_def cfg_deferred_def issue_assignee_def)
  from b1 b2 show ?thesis
    unfolding cf df F g1 F' using run cf df
    by (simp add: build_issue_data_def build_field_def cfg_deferred_def)
qed

text \<open>C3 as stated fails for an input field that line 360 overwrites: the issue's
  \<^verbatim>\<open>project\<close> is not a post-creation field, and its value \<^verbatim>\<open>OTHER\<close> is sent neither in
  the creation request, which carries the project key of the call, nor in the update.\<close>

theorem C3_counterexample:
  "map_of issue_with_project ''project'' = Some (JStr ''OTHER'')
   \<and> ''project'' \<notin> set (post_creation_update_fields cfg_deferred)
   \<and> create_new_jira_issue cfg_deferred tracker_ok ''PROJ'' issue_with_project JNull JNull []
       = (Inr (Parsed (JDict [(''key'', JStr ''K-1'')])),
          [creation_request [(''summary'', JStr ''T1''),
                             (''project'', JDict [(''key'', JStr ''PROJ'')]),
                             (''issuetype'', JStr ''Task'')],
           update_request (JStr ''K-1'') [(''assignee'', JDict [(''name'', JStr ''bob'')])]])"
  by (simp add: run_defs cfg_deferred_def tracker_ok_def issue_with_project_def
        creation_request_def update_request_def)

end
